theory Spec2Isabelle
  imports Complex_Main "HOL-Library.Word" "HOL-Library.AList"
begin

unbundle bit_operations_syntax

section \<open>Constants of the sniffer\<close>

type_synonym byte = "8 word"

definition MAX_BUFFER_SIZE :: nat where "MAX_BUFFER_SIZE = 512"
definition BUFFER_CLEANUP_SIZE :: nat where "BUFFER_CLEANUP_SIZE = 256"
definition MIN_FRAME_SIZE :: nat where "MIN_FRAME_SIZE = 4"
definition MAX_FRAME_SIZE :: nat where "MAX_FRAME_SIZE = 256"
definition TEMPERATURE_MIN :: real where "TEMPERATURE_MIN = -30"
definition TEMPERATURE_MAX :: real where "TEMPERATURE_MAX = 150"
definition MODBUS_CRC_INIT :: int where "MODBUS_CRC_INIT = 0xFFFF"
definition MODBUS_CRC_POLY :: int where "MODBUS_CRC_POLY = 0xA001"
definition STATS_PUBLISH_INTERVAL :: nat where "STATS_PUBLISH_INTERVAL = 50"

section \<open>CRC16 (\<open>calculate_crc\<close>, \<open>verify_crc\<close>)\<close>

text \<open>
  A buffer is a Python \<^verbatim>\<open>bytes\<close> object: a list of 8-bit values. The checksum
  register \<^verbatim>\<open>crc\<close> is a Python integer, hence an \<open>int\<close> here.

  One pass of the inner loop \<^verbatim>\<open>for _ in range(8)\<close>: shift right, and fold the
  polynomial in when the bit shifted out was set.
\<close>

definition crc_shift :: "int \<Rightarrow> int" where
  "crc_shift crc =
     (if crc AND 0x0001 \<noteq> 0 then drop_bit 1 crc XOR MODBUS_CRC_POLY else drop_bit 1 crc)"

fun crc_shifts :: "nat \<Rightarrow> int \<Rightarrow> int" where
  "crc_shifts 0 crc = crc"
| "crc_shifts (Suc n) crc = crc_shifts n (crc_shift crc)"

text \<open>The body of \<^verbatim>\<open>for byte in data\<close>: \<^verbatim>\<open>crc ^= byte\<close>, then eight shifts.\<close>

definition crc_update :: "int \<Rightarrow> byte \<Rightarrow> int" where
  "crc_update crc b = crc_shifts 8 (crc XOR uint b)"

text \<open>
  \<^verbatim>\<open>struct.pack('<H', crc)\<close>: low byte first. Python raises \<^verbatim>\<open>struct.error\<close>
  outside \<open>0 \<dots> 65535\<close>; the register never leaves that range (lemma
  \<open>crc_register_range\<close> below), so the two bytes are the value's low and high byte.
\<close>

definition pack_le_H :: "int \<Rightarrow> byte list" where
  "pack_le_H crc = [word_of_int crc, word_of_int (drop_bit 8 crc)]"

definition calculate_crc :: "byte list \<Rightarrow> byte list" where
  "calculate_crc data = pack_le_H (foldl crc_update MODBUS_CRC_INIT data)"

text \<open>
  \<^verbatim>\<open>frame[:-2]\<close> and \<^verbatim>\<open>frame[-2:]\<close> are \<open>take (n - 2)\<close> and \<open>drop (n - 2)\<close> with
  \<open>n\<close> the length; the guard on \<open>MIN_FRAME_SIZE\<close> comes first, as in the source.
\<close>

definition verify_crc :: "byte list \<Rightarrow> bool" where
  "verify_crc frame =
     (if length frame < MIN_FRAME_SIZE then False
      else let data = take (length frame - 2) frame;
               received_crc = drop (length frame - 2) frame;
               calculated_crc = calculate_crc data
           in received_crc = calculated_crc)"

section \<open>Frame extraction (\<open>extract_frames\<close>)\<close>

text \<open>
  The inner loop \<^verbatim>\<open>for frame_len in range(MIN_FRAME_SIZE, min(len(remaining) + 1,
  MAX_FRAME_SIZE))\<close>, left at the first length whose prefix passes \<open>verify_crc\<close>.
  The upper bound of a Python range is exclusive, as that of \<open>[a..<b]\<close> is.
\<close>

definition find_frame_len :: "byte list \<Rightarrow> nat option" where
  "find_frame_len remaining =
     List.find (\<lambda>frame_len. verify_crc (take frame_len remaining))
       [MIN_FRAME_SIZE ..< min (length remaining + 1) MAX_FRAME_SIZE]"

text \<open>
  The outer loop over the start positions: the first position at which the inner loop
  finds a length ends the search (\<open>frame_found\<close>, the two \<^verbatim>\<open>break\<close>s).
\<close>

fun scan_starts :: "byte list \<Rightarrow> nat list \<Rightarrow> (nat \<times> nat) option" where
  "scan_starts buffer [] = None"
| "scan_starts buffer (start_pos # more) =
     (case find_frame_len (drop start_pos buffer) of
        Some frame_len \<Rightarrow> Some (start_pos, frame_len)
      | None \<Rightarrow> scan_starts buffer more)"

text \<open>\<^verbatim>\<open>for start_pos in range(len(buffer) - 3)\<close>.\<close>

definition find_frame :: "byte list \<Rightarrow> (nat \<times> nat) option" where
  "find_frame buffer = scan_starts buffer [0 ..< length buffer - 3]"

lemma find_frame_len_SomeD:
  assumes "find_frame_len remaining = Some n"
  shows "MIN_FRAME_SIZE \<le> n" and "n \<le> length remaining" and "n < MAX_FRAME_SIZE"
    and "verify_crc (take n remaining)"
    and "\<And>k. MIN_FRAME_SIZE \<le> k \<Longrightarrow> k < n \<Longrightarrow> \<not> verify_crc (take k remaining)"
proof -
  let ?P = "\<lambda>k. verify_crc (take k remaining)"
  let ?xs = "[MIN_FRAME_SIZE ..< min (length remaining + 1) MAX_FRAME_SIZE]"
  from assms obtain i where i: "i < length ?xs" "?P (?xs ! i)" "n = ?xs ! i"
    "\<forall>j<i. \<not> ?P (?xs ! j)"
    unfolding find_frame_len_def find_Some_iff by blast
  from i(1) have lt: "MIN_FRAME_SIZE + i < min (length remaining + 1) MAX_FRAME_SIZE"
    unfolding length_upt by linarith
  with i(3) have n: "n = MIN_FRAME_SIZE + i" by simp
  from lt n show "MIN_FRAME_SIZE \<le> n" "n \<le> length remaining" "n < MAX_FRAME_SIZE"
    by simp_all
  from i(2,3) show "verify_crc (take n remaining)" by simp
  fix k assume k: "MIN_FRAME_SIZE \<le> k" "k < n"
  then have "k - MIN_FRAME_SIZE < i" using n by simp
  with i(4) have "\<not> ?P (?xs ! (k - MIN_FRAME_SIZE))" by blast
  moreover have "MIN_FRAME_SIZE + (k - MIN_FRAME_SIZE) < min (length remaining + 1) MAX_FRAME_SIZE"
    using k lt n by linarith
  then have "?xs ! (k - MIN_FRAME_SIZE) = k" using k by simp
  ultimately show "\<not> verify_crc (take k remaining)" by simp
qed

lemma scan_starts_SomeD:
  "scan_starts buffer ps = Some (p, n) \<Longrightarrow>
     p \<in> set ps \<and> find_frame_len (drop p buffer) = Some n"
  by (induction ps) (auto split: option.splits)

lemma find_frame_SomeD:
  assumes "find_frame buffer = Some (p, n)"
  shows "find_frame_len (drop p buffer) = Some n" and "p + n \<le> length buffer"
    and "MIN_FRAME_SIZE \<le> n" and "n < MAX_FRAME_SIZE"
proof -
  from assms have p: "p \<in> set [0 ..< length buffer - 3]"
    and n: "find_frame_len (drop p buffer) = Some n"
    unfolding find_frame_def by (auto dest: scan_starts_SomeD)
  show "find_frame_len (drop p buffer) = Some n" by (rule n)
  from find_frame_len_SomeD(2)[OF n] p show "p + n \<le> length buffer" by simp
  show "MIN_FRAME_SIZE \<le> n" by (rule find_frame_len_SomeD(1)[OF n])
  show "n < MAX_FRAME_SIZE" by (rule find_frame_len_SomeD(3)[OF n])
qed

text \<open>
  The \<^verbatim>\<open>while len(buffer) >= MIN_FRAME_SIZE\<close> loop. The result is the list of frames
  handed to \<open>process_frame\<close>, in the order of the calls, and the buffer that is
  returned. \<open>process_frame\<close> neither reads nor changes the buffer and lets no exception
  out, so the calls do not influence the loop.
\<close>

function extract_frames :: "byte list \<Rightarrow> byte list list \<times> byte list" where
  "extract_frames buffer =
     (if length buffer \<ge> MIN_FRAME_SIZE then
        (case find_frame buffer of
           Some (start_pos, frame_len) \<Rightarrow>
             (case extract_frames (drop (start_pos + frame_len) buffer) of
                (frames, rest) \<Rightarrow> (take frame_len (drop start_pos buffer) # frames, rest))
         | None \<Rightarrow>
             if length buffer > MAX_BUFFER_SIZE
             then extract_frames (drop BUFFER_CLEANUP_SIZE buffer)
             else ([], buffer))
      else ([], buffer))"
  by pat_completeness auto
termination
proof (relation "measure length")
  show "wf (measure length)" by simp
next
  fix buffer :: "byte list" and x2 start_pos frame_len
  assume "MIN_FRAME_SIZE \<le> length buffer" "find_frame buffer = Some x2"
    "(start_pos, frame_len) = x2"
  then have "find_frame buffer = Some (start_pos, frame_len)" by simp
  from find_frame_SomeD(3)[OF this]
  show "(drop (start_pos + frame_len) buffer, buffer) \<in> measure length"
    using \<open>MIN_FRAME_SIZE \<le> length buffer\<close> by (simp add: MIN_FRAME_SIZE_def)
next
  fix buffer :: "byte list"
  assume "MAX_BUFFER_SIZE < length buffer"
  then show "(drop BUFFER_CLEANUP_SIZE buffer, buffer) \<in> measure length"
    by (simp add: BUFFER_CLEANUP_SIZE_def MAX_BUFFER_SIZE_def)
qed

declare extract_frames.simps [simp del]

text \<open>
  The notions the properties of the extractor are stated with. A frame \<^emph>\<open>starts at\<close>
  offset \<open>p\<close> of a buffer when some window of \<open>MIN_FRAME_SIZE\<close> to \<open>MAX_FRAME_SIZE\<close>
  bytes that begins there and ends inside the buffer passes \<open>verify_crc\<close>; a run of
  offsets is free of frames when no frame starts at any of them; a frame has no valid
  prefix when none of its proper prefixes of at least \<open>MIN_FRAME_SIZE\<close> bytes passes
  \<open>verify_crc\<close>.
\<close>

definition frame_starts_at :: "byte list \<Rightarrow> nat \<Rightarrow> bool" where
  "frame_starts_at buffer p =
     list_ex (\<lambda>n. verify_crc (take n (drop p buffer)))
       [MIN_FRAME_SIZE ..< min (length buffer - p) MAX_FRAME_SIZE + 1]"

definition no_frame_starts :: "byte list \<Rightarrow> nat \<Rightarrow> nat \<Rightarrow> bool" where
  "no_frame_starts buffer lo len = list_all (\<lambda>p. \<not> frame_starts_at buffer p) [lo ..< lo + len]"

definition no_valid_prefix :: "byte list \<Rightarrow> bool" where
  "no_valid_prefix frame =
     list_all (\<lambda>n. \<not> verify_crc (take n frame)) [MIN_FRAME_SIZE ..< length frame]"

text \<open>
  The strictest reading of "no frame starts in the garbage or spans a boundary" for a
  buffer \<open>g1 @ A @ g2 @ B\<close>: every window of the buffer that passes \<open>verify_crc\<close> lies
  inside \<open>A\<close> or begins in \<open>B\<close>.
\<close>

definition only_inside_frames :: "byte list \<Rightarrow> byte list \<Rightarrow> byte list \<Rightarrow> byte list \<Rightarrow> bool" where
  "only_inside_frames g1 A g2 B =
     (let buffer = g1 @ A @ g2 @ B in
      list_all (\<lambda>p. list_all (\<lambda>n.
          verify_crc (take n (drop p buffer)) \<longrightarrow>
            (length g1 \<le> p \<and> p + n \<le> length g1 + length A) \<or>
            length g1 + length A + length g2 \<le> p)
        [MIN_FRAME_SIZE ..< min (length buffer - p) MAX_FRAME_SIZE + 1]) [0 ..< length buffer])"

section \<open>Frame classifier (\<open>is_modbus_request\<close>)\<close>

text \<open>The function code is a byte of the frame; the tests come in the source's order.\<close>

definition is_modbus_request :: "byte \<Rightarrow> byte list \<Rightarrow> bool" where
  "is_modbus_request function_code frame_data =
     (if function_code AND 0x80 \<noteq> 0 then False
      else if function_code \<in> set [0x01, 0x02, 0x03, 0x04] then length frame_data \<le> 8
      else if function_code = 0x06 then length frame_data = 8
      else if function_code = 0x10 then length frame_data > 9
      else True)"

section \<open>Register decoder (\<open>QuattDataParser\<close>)\<close>

text \<open>
  An entry of \<open>register_mappings\<close>. Scales are written as the fractions their decimal
  literals denote, and a scaled value is a real number: the rounding of Python's floats
  is not part of the model. The unit of the temperature entries is given by the bytes it
  has in the source file.
\<close>

record register_mapping =
  name :: string
  unit :: string
  scale :: real
  offset :: int
  device_class :: "string option"

definition deg_unit :: string where
  "deg_unit = [CHR 0xC2, CHR 0xAC, CHR 0xE2, CHR 0x88, CHR 0x9E, CHR ''C'']"

definition register_mappings :: "(int \<times> register_mapping) list" where
  "register_mappings =
   [(1999, \<lparr>name = ''Compressor Level set by CiC'', unit = '''', scale = 1, offset = 0, device_class = None\<rparr>),
    (2010, \<lparr>name = ''Pump Mode set by CiC'', unit = '''', scale = 1, offset = 0, device_class = None\<rparr>),
    (2015, \<lparr>name = ''Pump Level set by CiC'', unit = ''%'', scale = 1/100, offset = 0, device_class = None\<rparr>),
    (3999, \<lparr>name = ''Working Mode set by CiC'', unit = '''', scale = 1, offset = 0, device_class = None\<rparr>),
    (2099, \<lparr>name = ''Working Mode Actual'', unit = '''', scale = 1, offset = 0, device_class = None\<rparr>),
    (2100, \<lparr>name = ''Compressor AC Voltage'', unit = ''V'', scale = 1, offset = 0, device_class = Some ''voltage''\<rparr>),
    (2101, \<lparr>name = ''Compressor AC Current'', unit = ''A'', scale = 1/10, offset = 0, device_class = Some ''current''\<rparr>),
    (2102, \<lparr>name = ''Compressor Frequency Demand'', unit = ''Hz'', scale = 1, offset = 0, device_class = Some ''frequency''\<rparr>),
    (2103, \<lparr>name = ''Compressor Frequency Actual'', unit = ''Hz'', scale = 1, offset = 0, device_class = Some ''frequency''\<rparr>),
    (2104, \<lparr>name = ''Fan Speed Maximum'', unit = ''RPM'', scale = 1, offset = 0, device_class = Some ''speed''\<rparr>),
    (2105, \<lparr>name = ''Fan Speed Actual'', unit = ''RPM'', scale = 1, offset = 0, device_class = Some ''speed''\<rparr>),
    (2107, \<lparr>name = ''Electric Expansion Valve'', unit = ''p'', scale = 1, offset = 0, device_class = None\<rparr>),
    (2108, \<lparr>name = ''Status Bits R2108'', unit = '''', scale = 1, offset = 0, device_class = None\<rparr>),
    (2109, \<lparr>name = ''EV1 Steps'', unit = ''p'', scale = 1, offset = 0, device_class = None\<rparr>),
    (2110, \<lparr>name = ''Outside Temperature'', unit = deg_unit, scale = 1/100, offset = -3000, device_class = Some ''temperature''\<rparr>),
    (2111, \<lparr>name = ''Evaporator Coil Temperature'', unit = deg_unit, scale = 1/100, offset = -3000, device_class = Some ''temperature''\<rparr>),
    (2112, \<lparr>name = ''Gas Discharge Temperature'', unit = deg_unit, scale = 1/100, offset = -3000, device_class = Some ''temperature''\<rparr>),
    (2113, \<lparr>name = ''Gas Return Temperature'', unit = deg_unit, scale = 1/100, offset = -3000, device_class = Some ''temperature''\<rparr>),
    (2116, \<lparr>name = ''Evaporator Pressure'', unit = ''bar'', scale = 1/10, offset = 0, device_class = Some ''pressure''\<rparr>),
    (2117, \<lparr>name = ''Condenser Pressure'', unit = ''bar'', scale = 1/10, offset = 0, device_class = Some ''pressure''\<rparr>),
    (2118, \<lparr>name = ''Defrost Mode'', unit = '''', scale = 1, offset = 0, device_class = None\<rparr>),
    (2119, \<lparr>name = ''Status Bits R2119'', unit = '''', scale = 1, offset = 0, device_class = None\<rparr>),
    (2120, \<lparr>name = ''Status Bits R2120'', unit = '''', scale = 1, offset = 0, device_class = None\<rparr>),
    (2121, \<lparr>name = ''Status Bits R2121'', unit = '''', scale = 1, offset = 0, device_class = None\<rparr>),
    (2122, \<lparr>name = ''Firmware Version'', unit = '''', scale = 1, offset = 0, device_class = None\<rparr>),
    (2123, \<lparr>name = ''EEPROM Version'', unit = '''', scale = 1, offset = 0, device_class = None\<rparr>),
    (2131, \<lparr>name = ''Condensing Temperature'', unit = deg_unit, scale = 1/100, offset = -3000, device_class = Some ''temperature''\<rparr>),
    (2132, \<lparr>name = ''Evaporating Temperature'', unit = deg_unit, scale = 1/100, offset = -3000, device_class = Some ''temperature''\<rparr>),
    (2133, \<lparr>name = ''Water In Temperature'', unit = deg_unit, scale = 1/100, offset = -3000, device_class = Some ''temperature''\<rparr>),
    (2134, \<lparr>name = ''Water Out Temperature'', unit = deg_unit, scale = 1/100, offset = -3000, device_class = Some ''temperature''\<rparr>),
    (2135, \<lparr>name = ''Condenser Coil Temperature'', unit = deg_unit, scale = 1/100, offset = -3000, device_class = Some ''temperature''\<rparr>),
    (2137, \<lparr>name = ''Pump Power'', unit = ''W'', scale = 1/10, offset = 0, device_class = Some ''power''\<rparr>),
    (2138, \<lparr>name = ''Pump Flow'', unit = ''L/h'', scale = 618/1000, offset = 0, device_class = Some ''volume_flow_rate''\<rparr>)]"

text \<open>The bit tables, keyed by bit number, in the order the source lists them.\<close>

record bit_info =
  bit_name :: string
  bitmask :: int

definition r2108_bits :: "(nat \<times> bit_info) list" where
  "r2108_bits =
   [(0, \<lparr>bit_name = ''Fan Low Speed Mode'', bitmask = 0x1\<rparr>),
    (2, \<lparr>bit_name = ''Bottom Heater'', bitmask = 0x4\<rparr>),
    (3, \<lparr>bit_name = ''Crankcase Heater'', bitmask = 0x8\<rparr>),
    (4, \<lparr>bit_name = ''Fan Defrost Speed Mode'', bitmask = 0x10\<rparr>),
    (5, \<lparr>bit_name = ''Fan High Speed Mode'', bitmask = 0x20\<rparr>),
    (6, \<lparr>bit_name = ''4way Valve'', bitmask = 0x40\<rparr>),
    (11, \<lparr>bit_name = ''Pump Relay'', bitmask = 0x800\<rparr>)]"

definition r2119_bits :: "(nat \<times> bit_info) list" where
  "r2119_bits =
   [(0, \<lparr>bit_name = ''Alarm - Main Line Current'', bitmask = 0x1\<rparr>),
    (3, \<lparr>bit_name = ''Info - Compressor Oil Return'', bitmask = 0x8\<rparr>),
    (4, \<lparr>bit_name = ''Alarm - High Pressure Switch'', bitmask = 0x10\<rparr>),
    (6, \<lparr>bit_name = ''Alarm - 1st Start Pre-heat'', bitmask = 0x40\<rparr>),
    (9, \<lparr>bit_name = ''Alarm - AC High/Low Voltage'', bitmask = 0x200\<rparr>),
    (12, \<lparr>bit_name = ''Alarm - Low Pressure Switch'', bitmask = 0x1000\<rparr>)]"

text \<open>
  An entry of \<open>parsed_data\<close>. Its value is a number or a truth value; its register is an
  address or, for a bit, a text such as \<^verbatim>\<open>2108b5\<close>.
\<close>

datatype sensor_value = Number real | Flag bool

datatype register_ref = Address int | Bit_of string

record reading =
  rd_value :: sensor_value
  rd_unit :: string
  rd_device_class :: "string option"
  rd_register :: register_ref
  rd_raw_value :: int

text \<open>Decimal text of an integer, as an f-string formats it.\<close>

fun str_nat :: "nat \<Rightarrow> string" where
  "str_nat n = (if n < 10 then [''0123456789'' ! n]
                else str_nat (n div 10) @ [''0123456789'' ! (n mod 10)])"

declare str_nat.simps [simp del]

definition str_int :: "int \<Rightarrow> string" where
  "str_int i = (if i < 0 then CHR ''-'' # str_nat (nat (- i)) else str_nat (nat i))"

text \<open>
  \<open>_parse_status_bits\<close>. \<open>parsed_data\<close> is a Python dictionary, whose entries keep the
  order of their first insertion: an association list under \<open>AList.update\<close>.
\<close>

definition parse_status_bits ::
  "(string \<times> reading) list \<Rightarrow> int \<Rightarrow> int \<Rightarrow> (nat \<times> bit_info) list \<Rightarrow> string
     \<Rightarrow> (string \<times> reading) list" where
  "parse_status_bits parsed_data val register_addr bit_mappings prefix =
     foldl (\<lambda>pd (bit_num, info).
              AList.update (prefix @ '' '' @ bit_name info)
                \<lparr>rd_value = Flag (val AND bitmask info \<noteq> 0),
                 rd_unit = '''',
                 rd_device_class = Some ''binary_sensor'',
                 rd_register = Bit_of (str_int register_addr @ ''b'' @ str_nat bit_num),
                 rd_raw_value = val\<rparr> pd)
       parsed_data bit_mappings"

text \<open>
  Lines 328 to 338 of \<open>parse_read_response\<close>: the value read as signed for a temperature,
  the offset added, the scale applied, a temperature clamped. The result is the value
  kept as \<open>raw_value\<close> and the scaled value.
\<close>

definition scale_register :: "register_mapping \<Rightarrow> int \<Rightarrow> int \<times> real" where
  "scale_register mapping val0 =
     (let val = (if device_class mapping = Some ''temperature'' \<and> val0 > 32767
                 then val0 - 65536 else val0);
          offset_value = val + offset mapping;
          scaled_value = of_int offset_value * scale mapping;
          scaled_value = (if device_class mapping = Some ''temperature''
                          then max TEMPERATURE_MIN (min scaled_value TEMPERATURE_MAX)
                          else scaled_value)
      in (val, scaled_value))"

text \<open>The body of the loop of \<open>parse_read_response\<close>, for the value at index \<open>i\<close>.\<close>

definition parse_entry ::
  "int \<Rightarrow> (string \<times> reading) list \<Rightarrow> nat \<times> int \<Rightarrow> (string \<times> reading) list" where
  "parse_entry start_register parsed_data iv =
     (let register_addr = start_register + int (fst iv) in
      case map_of register_mappings register_addr of
        None \<Rightarrow> parsed_data
      | Some mapping \<Rightarrow>
          (let (val, scaled_value) = scale_register mapping (snd iv);
               parsed_data1 = AList.update (name mapping)
                 \<lparr>rd_value = Number scaled_value,
                  rd_unit = unit mapping,
                  rd_device_class = device_class mapping,
                  rd_register = Address register_addr,
                  rd_raw_value = val\<rparr> parsed_data
           in if register_addr = 2108 then
                parse_status_bits parsed_data1 val register_addr r2108_bits ''R2108''
              else if register_addr = 2118 then
                AList.update ''Defrost Mode Active''
                  \<lparr>rd_value = Flag (val AND 0x1 \<noteq> 0),
                   rd_unit = '''',
                   rd_device_class = Some ''binary_sensor'',
                   rd_register = Bit_of ''2118b0'',
                   rd_raw_value = val\<rparr> parsed_data1
              else if register_addr = 2119 then
                parse_status_bits parsed_data1 val register_addr r2119_bits ''R2119''
              else parsed_data1))"

definition parse_read_response :: "int \<Rightarrow> int list \<Rightarrow> (string \<times> reading) list" where
  "parse_read_response start_register vals =
     foldl (parse_entry start_register) [] (List.enumerate 0 vals)"

text \<open>The entries of \<open>parsed_data\<close> that come from the bit table of register 2108.\<close>

definition r2108_readings :: "(string \<times> reading) list \<Rightarrow> (string \<times> reading) list" where
  "r2108_readings parsed_data = filter (\<lambda>entry. take 6 (fst entry) = ''R2108 '') parsed_data"

section \<open>Sniffer state and frame processing (\<open>QuattModbusSniffer\<close>)\<close>

text \<open>
  The counters of \<open>self.stats\<close>, also those of an entry of \<open>self.slave_stats\<close>; a key
  of these dictionaries is a \<open>stat_type\<close>, and \<open>bump\<close> is \<^verbatim>\<open>[stat_type] += 1\<close>.
\<close>

record counters =
  total_frames :: nat
  valid_frames :: nat
  requests :: nat
  responses :: nat
  errors :: nat
  mqtt_publishes :: nat

datatype stat_type = Total_frames | Valid_frames | Requests | Responses | Errors | Mqtt_publishes

definition zero_counters :: counters where
  "zero_counters = \<lparr>total_frames = 0, valid_frames = 0, requests = 0, responses = 0,
                     errors = 0, mqtt_publishes = 0\<rparr>"

fun bump :: "stat_type \<Rightarrow> counters \<Rightarrow> counters" where
  "bump Total_frames c = c\<lparr>total_frames := total_frames c + 1\<rparr>"
| "bump Valid_frames c = c\<lparr>valid_frames := valid_frames c + 1\<rparr>"
| "bump Requests c = c\<lparr>requests := requests c + 1\<rparr>"
| "bump Responses c = c\<lparr>responses := responses c + 1\<rparr>"
| "bump Errors c = c\<lparr>errors := errors c + 1\<rparr>"
| "bump Mqtt_publishes c = c\<lparr>mqtt_publishes := mqtt_publishes c + 1\<rparr>"

text \<open>
  An entry of \<open>self.pending_requests\<close>. Times are the readings of \<^verbatim>\<open>time.time()\<close>,
  taken as real numbers.
\<close>

record pending =
  req_frame :: "byte list"
  req_time :: real
  req_function_code :: byte

text \<open>
  The fields of the sniffer that \<open>process_frame\<close> reads or writes. \<open>mqtt\<close> tells whether
  \<open>self.mqtt\<close> is an object (\<open>MQTT_AVAILABLE\<close>) or \<open>None\<close>. The two dictionaries are
  association lists: a store to a key is \<open>AList.update\<close>, \<^verbatim>\<open>del\<close> is \<open>AList.delete\<close>,
  a lookup is \<open>map_of\<close>.
\<close>

record sniffer =
  mqtt :: bool
  stats :: counters
  slave_stats :: "(byte \<times> counters) list"
  discovered_slaves :: "byte set"
  pending_requests :: "(byte \<times> pending) list"

definition init_sniffer :: "bool \<Rightarrow> sniffer" where
  "init_sniffer m = \<lparr>mqtt = m, stats = zero_counters, slave_stats = [],
                      discovered_slaves = {}, pending_requests = []\<rparr>"

text \<open>
  What a call lets the outside see: the two log lines of \<open>process_frame\<close> (the response
  line with the response time in milliseconds and the request frame that was matched),
  the calls to the MQTT client, and the statistics snapshot of \<open>publish_stats\<close>. The
  logger and the MQTT client are taken not to raise; then nothing in \<open>process_frame\<close>
  raises on a frame of at least \<open>MIN_FRAME_SIZE\<close> bytes, and its \<^verbatim>\<open>except\<close> branch is
  never entered.
\<close>

datatype event =
    Request_logged byte "byte list"
  | Response_logged byte "byte list" real "byte list option"
  | Discovery_published byte
  | Sensor_published byte string reading
  | Response_time_published byte real
  | Stats_published counters "(byte \<times> counters) list"

definition update_slave_stats ::
  "(byte \<times> counters) list \<Rightarrow> byte \<Rightarrow> stat_type \<Rightarrow> (byte \<times> counters) list" where
  "update_slave_stats table slave_id stat_type =
     (case map_of table slave_id of
        None \<Rightarrow> AList.update slave_id (bump stat_type zero_counters) table
      | Some c \<Rightarrow> AList.update slave_id (bump stat_type c) table)"

definition count_stat :: "sniffer \<Rightarrow> stat_type \<Rightarrow> sniffer" where
  "count_stat s stat_type = s\<lparr>stats := bump stat_type (stats s)\<rparr>"

definition count_slave_stat :: "sniffer \<Rightarrow> byte \<Rightarrow> stat_type \<Rightarrow> sniffer" where
  "count_slave_stat s slave_id stat_type =
     s\<lparr>slave_stats := update_slave_stats (slave_stats s) slave_id stat_type\<rparr>"

text \<open>
  Lines 636 to 644 of \<open>process_frame\<close>: the response time, the matched request frame
  and the table after the match. \<open>response_time_ms\<close> starts at \<open>0\<close> and keeps that value
  when no request is pending.
\<close>

definition match_response ::
  "(byte \<times> pending) list \<Rightarrow> byte \<Rightarrow> real \<Rightarrow> real \<times> byte list option \<times> (byte \<times> pending) list" where
  "match_response table device_id current_time =
     (case map_of table device_id of
        Some req \<Rightarrow>
          ((current_time - req_time req) * 1000, Some (req_frame req),
           AList.delete device_id table)
      | None \<Rightarrow> (0, None, table))"

text \<open>
  The values of a read response, as \<open>handle_sensor_data\<close> collects them: for
  \<^verbatim>\<open>i in range(0, byte_count, 2)\<close>, the big-endian 16-bit value at \<open>3 + i\<close> when
  \<^verbatim>\<open>3 + i + 1 < len(response_frame) - 2\<close>; under that test the slice has its two bytes.
\<close>

definition response_values :: "byte list \<Rightarrow> int list" where
  "response_values response_frame =
     (let byte_count = unat (response_frame ! 2) in
      concat (map (\<lambda>k. let i = 2 * k in
                     if 3 + i + 1 < length response_frame - 2
                     then [256 * uint (response_frame ! (3 + i)) + uint (response_frame ! (4 + i))]
                     else [])
                [0 ..< (byte_count + 1) div 2]))"

definition setup_ha_sensors_for_slave :: "sniffer \<Rightarrow> byte \<Rightarrow> sniffer \<times> event list" where
  "setup_ha_sensors_for_slave s slave_id =
     (if \<not> mqtt s \<or> slave_id \<in> discovered_slaves s then (s, [])
      else (s\<lparr>discovered_slaves := insert slave_id (discovered_slaves s)\<rparr>,
            [Discovery_published slave_id]))"

text \<open>
  \<open>handle_sensor_data\<close>. A request frame too short for \<^verbatim>\<open>request_frame[2:4]\<close> to hold
  two bytes makes \<^verbatim>\<open>struct.unpack\<close> raise; the function catches that and returns. The
  response time is handed to the client rounded to one decimal; the event carries it
  unrounded.
\<close>

definition handle_sensor_data ::
  "sniffer \<Rightarrow> byte list \<Rightarrow> byte list option \<Rightarrow> byte \<Rightarrow> real \<Rightarrow> sniffer \<times> event list" where
  "handle_sensor_data s response_frame request_frame device_id response_time =
     (case request_frame of
        None \<Rightarrow> (s, [])
      | Some request \<Rightarrow>
          if \<not> mqtt s \<or> request = [] \<or> response_frame ! 1 \<notin> set [0x03, 0x04] then (s, [])
          else if length request < 4 then (s, [])
          else
            (let start_register = 256 * uint (request ! 2) + uint (request ! 3);
                 vals = response_values response_frame;
                 (s1, discovery) = setup_ha_sensors_for_slave s device_id;
                 parsed_data = parse_read_response start_register vals;
                 s2 = foldl (\<lambda>st entry.
                        count_slave_stat (count_stat st Mqtt_publishes) device_id Mqtt_publishes)
                        s1 parsed_data
             in (s2, discovery
                       @ map (\<lambda>(sensor_name, sensor_data).
                                Sensor_published device_id sensor_name sensor_data) parsed_data
                       @ [Response_time_published device_id response_time])))"

text \<open>\<open>publish_stats\<close>: nothing without an MQTT client, else the snapshot.\<close>

definition publish_stats :: "sniffer \<Rightarrow> event list" where
  "publish_stats s = (if \<not> mqtt s then [] else [Stats_published (stats s) (slave_stats s)])"

text \<open>
  \<open>process_frame\<close>, given the reading of the clock as \<open>current_time\<close>. The result is the
  new state and what the call let the outside see.
\<close>

definition process_frame :: "sniffer \<Rightarrow> byte list \<Rightarrow> real \<Rightarrow> sniffer \<times> event list" where
  "process_frame s frame_data current_time =
     (let s0 = count_stat s Total_frames in
      if length frame_data < MIN_FRAME_SIZE then (s0, [])
      else
        (let device_id = frame_data ! 0;
             function_code = frame_data ! 1;
             is_request = is_modbus_request function_code frame_data;
             (s3, out) =
               (if is_request then
                  (let s1 = count_slave_stat (count_stat s0 Requests) device_id Requests;
                       s2 = s1\<lparr>pending_requests :=
                               AList.update device_id
                                 \<lparr>req_frame = frame_data, req_time = current_time,
                                  req_function_code = function_code\<rparr>
                                 (pending_requests s1)\<rparr>
                   in (s2, [Request_logged device_id frame_data]))
                else
                  (let s1 = count_slave_stat (count_stat s0 Responses) device_id Responses;
                       (response_time_ms, request_frame, table) =
                          match_response (pending_requests s1) device_id current_time;
                       s2 = s1\<lparr>pending_requests := table\<rparr>;
                       (s2', published) =
                          handle_sensor_data s2 frame_data request_frame device_id response_time_ms
                   in (s2', Response_logged device_id frame_data response_time_ms request_frame
                              # published)));
             s4 = count_slave_stat (count_stat s3 Valid_frames) device_id Valid_frames
         in if total_frames (stats s4) mod STATS_PUBLISH_INTERVAL = 0
            then (s4, out @ publish_stats s4)
            else (s4, out)))"

text \<open>
  A processing trace is the list of the frames handed to \<open>process_frame\<close>, each with the
  clock reading of its call; \<open>process_all\<close> is the state after the trace.
\<close>

definition process_all :: "sniffer \<Rightarrow> (byte list \<times> real) list \<Rightarrow> sniffer" where
  "process_all s trace = foldl (\<lambda>st (frame_data, t). fst (process_frame st frame_data t)) s trace"

definition is_stats :: "event \<Rightarrow> bool" where
  "is_stats e = (case e of Stats_published c t \<Rightarrow> True | _ \<Rightarrow> False)"

definition emits_stats :: "event list \<Rightarrow> bool" where
  "emits_stats out = list_ex is_stats out"

text \<open>The states the sniffer can be in: those a trace leads to from a fresh sniffer.\<close>

inductive reachable :: "sniffer \<Rightarrow> bool" where
  start: "reachable (init_sniffer m)"
| step: "reachable s \<Longrightarrow> reachable (fst (process_frame s frame_data current_time))"

section \<open>Verified properties\<close>

subsection \<open>CRC and extractor: auxiliary facts\<close>


lemma length_calculate_crc: "length (calculate_crc d) = 2"
  by (simp add: calculate_crc_def pack_le_H_def)

lemma verify_crc_append:
  "2 \<le> length d \<Longrightarrow> verify_crc (d @ calculate_crc d)"
  by (simp add: verify_crc_def MIN_FRAME_SIZE_def length_calculate_crc)

lemma extract_frames_short:
  "length buffer < MIN_FRAME_SIZE \<Longrightarrow> extract_frames buffer = ([], buffer)"
  by (subst extract_frames.simps) simp

lemma find_frame_long: "find_frame buffer = Some pn \<Longrightarrow> MIN_FRAME_SIZE \<le> length buffer"
  by (cases "length buffer < 4") (auto simp: find_frame_def MIN_FRAME_SIZE_def)

lemma extract_frames_found:
  assumes "find_frame buffer = Some (p, n)"
  shows "extract_frames buffer =
           (take n (drop p buffer) # fst (extract_frames (drop (p + n) buffer)),
            snd (extract_frames (drop (p + n) buffer)))"
  using assms find_frame_long[OF assms]
  by (subst extract_frames.simps) (simp split: prod.splits)

lemma extract_frames_cleanup:
  "find_frame buffer = None \<Longrightarrow> MAX_BUFFER_SIZE < length buffer \<Longrightarrow>
     extract_frames buffer = extract_frames (drop BUFFER_CLEANUP_SIZE buffer)"
  by (subst extract_frames.simps) (simp add: MAX_BUFFER_SIZE_def MIN_FRAME_SIZE_def)

lemma extract_frames_wait:
  "find_frame buffer = None \<Longrightarrow> length buffer \<le> MAX_BUFFER_SIZE \<Longrightarrow>
     extract_frames buffer = ([], buffer)"
  by (subst extract_frames.simps) simp

lemma extract_frames_rest:
  "length (snd (extract_frames buffer)) < MIN_FRAME_SIZE \<or>
   (find_frame (snd (extract_frames buffer)) = None \<and>
    length (snd (extract_frames buffer)) \<le> MAX_BUFFER_SIZE)"
proof (induction buffer rule: extract_frames.induct)
  case (1 buffer)
  show ?case
  proof (cases "find_frame buffer")
    case None
    show ?thesis
    proof (cases "MAX_BUFFER_SIZE < length buffer")
      case True
      then have long: "MIN_FRAME_SIZE \<le> length buffer"
        by (simp add: MAX_BUFFER_SIZE_def MIN_FRAME_SIZE_def)
      from "1.IH"(1)[OF long None True] show ?thesis
        by (simp add: extract_frames_cleanup[OF None True])
    next
      case False
      then show ?thesis by (simp add: extract_frames_wait[OF None] None)
    qed
  next
    case (Some pn)
    obtain p n where pn: "pn = (p, n)" by (cases pn)
    from "1.IH"(2)[OF find_frame_long[OF Some] Some pn[symmetric]] show ?thesis
      by (simp add: extract_frames_found[OF Some[unfolded pn]])
  qed
qed

lemma extract_frames_emitted:
  "f \<in> set (fst (extract_frames buffer)) \<Longrightarrow>
     MIN_FRAME_SIZE \<le> length f \<and> length f < MAX_FRAME_SIZE \<and> verify_crc f"
proof (induction buffer rule: extract_frames.induct)
  case (1 buffer)
  show ?case
  proof (cases "find_frame buffer")
    case None
    show ?thesis
    proof (cases "MAX_BUFFER_SIZE < length buffer")
      case True
      then have long: "MIN_FRAME_SIZE \<le> length buffer"
        by (simp add: MAX_BUFFER_SIZE_def MIN_FRAME_SIZE_def)
      from "1.prems" have "f \<in> set (fst (extract_frames (drop BUFFER_CLEANUP_SIZE buffer)))"
        by (simp add: extract_frames_cleanup[OF None True])
      with "1.IH"(1)[OF long None True] show ?thesis by simp
    next
      case False
      with "1.prems" show ?thesis by (simp add: extract_frames_wait[OF None])
    qed
  next
    case (Some pn)
    obtain p n where pn: "pn = (p, n)" by (cases pn)
    note ff = Some[unfolded pn]
    from "1.prems"
    have "f = take n (drop p buffer) \<or> f \<in> set (fst (extract_frames (drop (p + n) buffer)))"
      by (simp add: extract_frames_found[OF ff])
    then show ?thesis
    proof
      assume f: "f = take n (drop p buffer)"
      note d = find_frame_SomeD[OF ff]
      from find_frame_len_SomeD(4)[OF d(1)] d f show ?thesis by simp
    next
      assume "f \<in> set (fst (extract_frames (drop (p + n) buffer)))"
      with "1.IH"(2)[OF find_frame_long[OF Some] Some pn[symmetric]] show ?thesis by simp
    qed
  qed
qed


lemma verify_crc_long: "verify_crc frame \<Longrightarrow> MIN_FRAME_SIZE \<le> length frame"
  by (cases "length frame < MIN_FRAME_SIZE") (simp_all add: verify_crc_def)

lemma scan_starts_append_None:
  "\<forall>p\<in>set ps. find_frame_len (drop p buffer) = None \<Longrightarrow>
     scan_starts buffer (ps @ qs) = scan_starts buffer qs"
  by (induction ps) simp_all

lemma find_frame_len_None_garbage:
  assumes "\<not> frame_starts_at buffer p"
  shows "find_frame_len (drop p buffer) = None"
proof -
  have "\<not> verify_crc (take n (drop p buffer))"
    if "n \<in> set [MIN_FRAME_SIZE ..< min (length (drop p buffer) + 1) MAX_FRAME_SIZE]" for n
  proof
    assume v: "verify_crc (take n (drop p buffer))"
    from that have "MIN_FRAME_SIZE \<le> n" "n < min (length buffer - p) MAX_FRAME_SIZE + 1"
      by auto
    then have "n \<in> set [MIN_FRAME_SIZE ..< min (length buffer - p) MAX_FRAME_SIZE + 1]"
      by (simp only: set_upt atLeastLessThan_iff)
    with v have "frame_starts_at buffer p"
      unfolding frame_starts_at_def list_ex_iff by blast
    with assms show False by simp
  qed
  then show ?thesis unfolding find_frame_len_def find_None_iff by blast
qed

lemma find_frame_len_shortest:
  assumes v: "verify_crc frame" and len: "length frame < MAX_FRAME_SIZE"
    and np: "no_valid_prefix frame"
  shows "find_frame_len (frame @ rest) = Some (length frame)"
proof -
  let ?P = "\<lambda>n. verify_crc (take n (frame @ rest))"
  let ?xs = "[MIN_FRAME_SIZE ..< min (length (frame @ rest) + 1) MAX_FRAME_SIZE]"
  let ?i = "length frame - MIN_FRAME_SIZE"
  note long = verify_crc_long[OF v]
  have i: "MIN_FRAME_SIZE + ?i < min (length (frame @ rest) + 1) MAX_FRAME_SIZE"
    using long len by simp
  then have il: "?i < length ?xs" unfolding length_upt by linarith
  have xi: "?xs ! ?i = length frame" using i long by simp
  have "\<not> ?P (?xs ! j)" if "j < ?i" for j
  proof -
    from that i have "MIN_FRAME_SIZE + j < min (length (frame @ rest) + 1) MAX_FRAME_SIZE"
      by linarith
    then have xj: "?xs ! j = MIN_FRAME_SIZE + j" by simp
    from that long have "MIN_FRAME_SIZE + j \<in> set [MIN_FRAME_SIZE ..< length frame]" by simp
    with np have nv: "\<not> verify_crc (take (MIN_FRAME_SIZE + j) frame)"
      unfolding no_valid_prefix_def list_all_iff by blast
    have "MIN_FRAME_SIZE + j \<le> length frame" using that by linarith
    then have tk: "take (MIN_FRAME_SIZE + j) (frame @ rest) = take (MIN_FRAME_SIZE + j) frame"
      by simp
    from nv show ?thesis unfolding xj tk .
  qed
  moreover have "?P (?xs ! ?i)" using xi v by simp
  ultimately have "\<exists>i<length ?xs. ?P (?xs ! i) \<and> length frame = ?xs ! i \<and> (\<forall>j<i. \<not> ?P (?xs ! j))"
    using il xi by metis
  then show ?thesis unfolding find_frame_len_def find_Some_iff .
qed

lemma find_frame_after_garbage:
  assumes v: "verify_crc frame" and len: "length frame < MAX_FRAME_SIZE"
    and np: "no_valid_prefix frame"
    and g: "no_frame_starts (garbage @ frame @ rest) 0 (length garbage)"
  shows "find_frame (garbage @ frame @ rest) = Some (length garbage, length frame)"
proof -
  let ?buf = "garbage @ frame @ rest"
  note long = verify_crc_long[OF v]
  have split: "[0 ..< length ?buf - 3] =
      [0 ..< length garbage] @ length garbage # [Suc (length garbage) ..< length ?buf - 3]"
  proof -
    have "length garbage < length ?buf - 3" using long by (simp add: MIN_FRAME_SIZE_def)
    then show ?thesis
      by (metis upt_conv_Cons upt_add_eq_append zero_le less_imp_le_nat
          ordered_cancel_comm_monoid_diff_class.add_diff_inverse)
  qed
  have none: "\<forall>p\<in>set [0 ..< length garbage]. find_frame_len (drop p ?buf) = None"
  proof
    fix p assume "p \<in> set [0 ..< length garbage]"
    with g have "\<not> frame_starts_at ?buf p"
      unfolding no_frame_starts_def list_all_iff by simp
    then show "find_frame_len (drop p ?buf) = None" by (rule find_frame_len_None_garbage)
  qed
  have "find_frame_len (drop (length garbage) ?buf) = Some (length frame)"
    using find_frame_len_shortest[OF v len np] by simp
  then show ?thesis
    unfolding find_frame_def split by (simp add: scan_starts_append_None[OF none])
qed

lemma crc_shift_range: "0 \<le> c \<Longrightarrow> c < 65536 \<Longrightarrow> 0 \<le> crc_shift c \<and> crc_shift c < 65536"
proof -
  assume c: "0 \<le> c" "c < 65536"
  have d: "0 \<le> drop_bit 1 c" "drop_bit 1 c < 2 ^ 16" using c by (simp_all add: drop_bit_eq_div)
  have "drop_bit 1 c XOR 0xA001 < 2 ^ 16"
    by (rule XOR_upper) (use d in simp_all)
  with d show ?thesis by (simp add: crc_shift_def MODBUS_CRC_POLY_def)
qed

lemma crc_shifts_range: "0 \<le> c \<Longrightarrow> c < 65536 \<Longrightarrow> 0 \<le> crc_shifts n c \<and> crc_shifts n c < 65536"
  by (induction n arbitrary: c) (simp_all add: crc_shift_range)

lemma crc_update_range:
  assumes "0 \<le> c" "c < 65536"
  shows "0 \<le> crc_update c b \<and> crc_update c b < 65536"
proof -
  have "uint b < 2 ^ 8" using uint_bounded[of b] by simp
  then have "uint b < 2 ^ 16" by simp
  with assms have "c XOR uint b < 2 ^ 16" by (intro XOR_upper) simp_all
  moreover have "0 \<le> c XOR uint b" using assms by simp
  ultimately show ?thesis unfolding crc_update_def by (intro crc_shifts_range) simp_all
qed

lemma crc_register_range:
  "0 \<le> foldl crc_update MODBUS_CRC_INIT data \<and> foldl crc_update MODBUS_CRC_INIT data < 65536"
proof -
  have "0 \<le> c \<Longrightarrow> c < 65536 \<Longrightarrow> 0 \<le> foldl crc_update c data \<and> foldl crc_update c data < 65536" for c
    by (induction data arbitrary: c) (simp_all add: crc_update_range)
  then show ?thesis by (simp add: MODBUS_CRC_INIT_def)
qed

lemma calculate_crc_example: "calculate_crc [0x01, 0x03, 0x00, 0x00, 0x00, 0x0A] = [0xC5, 0xCD]"
  by code_simp

subsection \<open>The checksum\<close>

text \<open>
  C4, as amended. For every byte sequence \<open>d\<close> of at least two bytes, \<open>verify_crc\<close>
  accepts \<open>d\<close> followed by \<open>calculate_crc d\<close>. \<open>verify_crc\<close> accepts a frame exactly when
  the frame has at least \<open>MIN_FRAME_SIZE = 4\<close> bytes and the checksum of all but its last
  two bytes equals its last two bytes. The checksum is two bytes, the low byte first, of
  a register that starts at \<open>0xFFFF\<close>, takes each byte by exclusive or followed by eight
  right shifts with the polynomial \<open>0xA001\<close>, and stays within 16 bits.
\<close>

theorem verify_crc_roundtrip:
  "(2 \<le> length d \<longrightarrow> verify_crc (d @ calculate_crc d)) \<and>
   (verify_crc fr \<longleftrightarrow>
      MIN_FRAME_SIZE \<le> length fr \<and>
      calculate_crc (take (length fr - 2) fr) = drop (length fr - 2) fr) \<and>
   calculate_crc d =
     (let crc = foldl (\<lambda>crc b. crc_shifts 8 (crc XOR uint b)) 0xFFFF d
      in [word_of_int (crc mod 256), word_of_int (crc div 256)]) \<and>
   crc_shift c = (if odd c then c div 2 XOR 0xA001 else c div 2) \<and>
   0 \<le> foldl crc_update MODBUS_CRC_INIT d \<and> foldl crc_update MODBUS_CRC_INIT d < 65536"
proof (intro conjI)
  show "2 \<le> length d \<longrightarrow> verify_crc (d @ calculate_crc d)"
    by (simp add: verify_crc_append)
  show "verify_crc fr \<longleftrightarrow>
      MIN_FRAME_SIZE \<le> length fr \<and>
      calculate_crc (take (length fr - 2) fr) = drop (length fr - 2) fr"
    by (auto simp: verify_crc_def)
  have up: "crc_update = (\<lambda>crc b. crc_shifts 8 (crc XOR uint b))"
    by (intro ext) (simp add: crc_update_def)
  have "word_of_int (drop_bit 8 x) = (word_of_int (x div 256) :: byte)" for x :: int
    by (simp add: drop_bit_eq_div)
  moreover have "(word_of_int x :: byte) = word_of_int (x mod 256)" for x :: int
    by (simp add: word_of_int_eq_iff take_bit_eq_mod)
  ultimately show "calculate_crc d =
     (let crc = foldl (\<lambda>crc b. crc_shifts 8 (crc XOR uint b)) 0xFFFF d
      in [word_of_int (crc mod 256), word_of_int (crc div 256)])"
    unfolding calculate_crc_def pack_le_H_def up MODBUS_CRC_INIT_def Let_def by simp
  show "crc_shift c = (if odd c then c div 2 XOR 0xA001 else c div 2)"
    by (simp add: crc_shift_def MODBUS_CRC_POLY_def drop_bit_eq_div and_one_eq mod_2_eq_odd)
  show "0 \<le> foldl crc_update MODBUS_CRC_INIT d" "foldl crc_update MODBUS_CRC_INIT d < 65536"
    using crc_register_range[of d] by simp_all
qed

theorem verify_crc_roundtrip_witness:
  "2 \<le> length [0x01, 0x03, 0x00, 0x00, 0x00, 0x0A :: byte] \<and>
   verify_crc [0x01, 0x03, 0x00, 0x00, 0x00, 0x0A, 0xC5, 0xCD]"
proof -
  have "2 \<le> length [0x01, 0x03, 0x00, 0x00, 0x00, 0x0A :: byte] \<longrightarrow>
        verify_crc ([0x01, 0x03, 0x00, 0x00, 0x00, 0x0A]
                      @ calculate_crc [0x01, 0x03, 0x00, 0x00, 0x00, 0x0A])"
    using verify_crc_roundtrip [where d = "[0x01, 0x03, 0x00, 0x00, 0x00, 0x0A]"]
    by (rule conjunct1)
  then show ?thesis unfolding calculate_crc_example by simp
qed

text \<open>
  The claim as stated fails for the empty byte sequence: its checksum is \<open>0xFF 0xFF\<close>,
  and \<open>verify_crc\<close> rejects these two bytes, which are fewer than \<open>MIN_FRAME_SIZE\<close>.
\<close>

theorem verify_crc_roundtrip_counterexample:
  "calculate_crc [] = [0xFF, 0xFF] \<and> \<not> verify_crc ([] @ calculate_crc [])"
  by code_simp

subsection \<open>The extractor\<close>

text \<open>
  C10. For every buffer, \<open>extract_frames\<close> returns (the function is total, by its
  termination proof), and the buffer it returns has at most \<open>MAX_BUFFER_SIZE = 512\<close>
  bytes: it has fewer than \<open>MIN_FRAME_SIZE = 4\<close> bytes, or no frame is found in it and
  it does not exceed \<open>MAX_BUFFER_SIZE\<close>.
\<close>

theorem extract_frames_remainder_bounded:
  "length (snd (extract_frames buffer)) \<le> MAX_BUFFER_SIZE \<and>
   (length (snd (extract_frames buffer)) < MIN_FRAME_SIZE \<or>
    find_frame (snd (extract_frames buffer)) = None \<and>
    length (snd (extract_frames buffer)) \<le> MAX_BUFFER_SIZE)"
  using extract_frames_rest [of buffer]
  by (auto simp: MIN_FRAME_SIZE_def MAX_BUFFER_SIZE_def)

text \<open>
  C1, as amended. Let \<open>A\<close> and \<open>B\<close> pass \<open>verify_crc\<close>, have fewer than
  \<open>MAX_FRAME_SIZE = 256\<close> bytes and no proper prefix of at least \<open>MIN_FRAME_SIZE\<close> bytes
  that passes \<open>verify_crc\<close>, and let no frame start at an offset inside \<open>g1\<close> or \<open>g2\<close> in
  the buffer \<open>g1 @ A @ g2 @ B\<close>. Then \<open>extract_frames\<close> hands \<open>A\<close> and then \<open>B\<close> to
  \<open>process_frame\<close>, nothing else, and returns the empty buffer. Whatever the buffer,
  every frame handed over has at least \<open>MIN_FRAME_SIZE\<close> and at most \<open>MAX_FRAME_SIZE\<close>
  bytes.
\<close>

theorem extract_two_frames:
  assumes A: "verify_crc A" "length A < MAX_FRAME_SIZE" "no_valid_prefix A"
    and B: "verify_crc B" "length B < MAX_FRAME_SIZE" "no_valid_prefix B"
    and g1: "no_frame_starts (g1 @ A @ g2 @ B) 0 (length g1)"
    and g2: "no_frame_starts (g1 @ A @ g2 @ B) (length g1 + length A) (length g2)"
  shows "extract_frames (g1 @ A @ g2 @ B) = ([A, B], []) \<and>
         (\<forall>f\<in>set (fst (extract_frames buffer)).
            MIN_FRAME_SIZE \<le> length f \<and> length f \<le> MAX_FRAME_SIZE)"
proof
  have fA: "find_frame (g1 @ A @ g2 @ B) = Some (length g1, length A)"
    by (rule find_frame_after_garbage[OF A g1])
  have g2': "no_frame_starts (g2 @ B @ []) 0 (length g2)"
    unfolding no_frame_starts_def list_all_iff
  proof
    fix p assume "p \<in> set [0 ..< 0 + length g2]"
    then have p: "p < length g2" by simp
    then have "length g1 + length A + p \<in> set [length g1 + length A ..< length g1 + length A + length g2]"
      by simp
    with g2 have n: "\<not> frame_starts_at (g1 @ A @ g2 @ B) (length g1 + length A + p)"
      unfolding no_frame_starts_def list_all_iff by blast
    have e1: "drop (length g1 + length A + p) (g1 @ A @ g2 @ B) = drop p (g2 @ B @ [])"
      by (simp add: drop_append)
    have e2: "length (g1 @ A @ g2 @ B) - (length g1 + length A + p) = length (g2 @ B @ []) - p"
      using p by simp
    from n show "\<not> frame_starts_at (g2 @ B @ []) p"
      unfolding frame_starts_at_def e1 e2 .
  qed
  have fB: "find_frame (g2 @ B @ []) = Some (length g2, length B)"
    by (rule find_frame_after_garbage[OF B g2'])
  have e0: "extract_frames [] = ([], [])"
    by (rule extract_frames_short) (simp add: MIN_FRAME_SIZE_def)
  have eB: "extract_frames (g2 @ B) = ([B], [])"
    using extract_frames_found[OF fB] e0 by simp
  show "extract_frames (g1 @ A @ g2 @ B) = ([A, B], [])"
    using extract_frames_found[OF fA] eB by simp
  show "\<forall>f\<in>set (fst (extract_frames buffer)).
            MIN_FRAME_SIZE \<le> length f \<and> length f \<le> MAX_FRAME_SIZE"
    using extract_frames_emitted[of _ buffer] by (auto intro: less_imp_le)
qed

theorem extract_two_frames_witness:
  "verify_crc [0x01, 0x03, 0x00, 0x00, 0x00, 0x0A, 0xC5, 0xCD] \<and>
   verify_crc [0x01, 0x03, 0x02, 0x00, 0x07, 0xF9, 0x86] \<and>
   extract_frames ([0xAA] @ [0x01, 0x03, 0x00, 0x00, 0x00, 0x0A, 0xC5, 0xCD] @ [0x55]
                     @ [0x01, 0x03, 0x02, 0x00, 0x07, 0xF9, 0x86])
     = ([[0x01, 0x03, 0x00, 0x00, 0x00, 0x0A, 0xC5, 0xCD],
         [0x01, 0x03, 0x02, 0x00, 0x07, 0xF9, 0x86]], [])"
proof -
  let ?A = "[0x01, 0x03, 0x00, 0x00, 0x00, 0x0A, 0xC5, 0xCD] :: byte list"
  let ?B = "[0x01, 0x03, 0x02, 0x00, 0x07, 0xF9, 0x86] :: byte list"
  have A: "verify_crc ?A" "length ?A < MAX_FRAME_SIZE" "no_valid_prefix ?A" by code_simp+
  have B: "verify_crc ?B" "length ?B < MAX_FRAME_SIZE" "no_valid_prefix ?B" by code_simp+
  have g1: "no_frame_starts ([0xAA] @ ?A @ [0x55] @ ?B) 0 (length [0xAA :: byte])"
    by code_simp
  have g2: "no_frame_starts ([0xAA] @ ?A @ [0x55] @ ?B) (length [0xAA :: byte] + length ?A)
              (length [0x55 :: byte])"
    by code_simp
  from extract_two_frames [OF A B g1 g2] A(1) B(1) show ?thesis by blast
qed

text \<open>
  The claim as stated fails when a frame has a shorter valid prefix. In the buffer below,
  \<open>A\<close> is the eight bytes after the first and \<open>B\<close> the last eight; both pass
  \<open>verify_crc\<close>, and every valid window of the buffer lies inside \<open>A\<close> or is \<open>B\<close>. The first
  four bytes of \<open>A\<close> pass \<open>verify_crc\<close> too, and it is they that are handed over first.
\<close>

theorem extract_two_frames_counterexample:
  "verify_crc [0x01, 0x03, 0x40, 0x21, 0x12, 0x34, 0x0D, 0x77] \<and>
   verify_crc [0x01, 0x03, 0x00, 0x00, 0x00, 0x0A, 0xC5, 0xCD] \<and>
   only_inside_frames [0xAA] [0x01, 0x03, 0x40, 0x21, 0x12, 0x34, 0x0D, 0x77] [0x55]
     [0x01, 0x03, 0x00, 0x00, 0x00, 0x0A, 0xC5, 0xCD] \<and>
   extract_frames ([0xAA] @ [0x01, 0x03, 0x40, 0x21, 0x12, 0x34, 0x0D, 0x77] @ [0x55]
                     @ [0x01, 0x03, 0x00, 0x00, 0x00, 0x0A, 0xC5, 0xCD])
     = ([[0x01, 0x03, 0x40, 0x21], [0x01, 0x03, 0x00, 0x00, 0x00, 0x0A, 0xC5, 0xCD]], []) \<and>
   fst (extract_frames ([0xAA] @ [0x01, 0x03, 0x40, 0x21, 0x12, 0x34, 0x0D, 0x77] @ [0x55]
                     @ [0x01, 0x03, 0x00, 0x00, 0x00, 0x0A, 0xC5, 0xCD]))
     \<noteq> [[0x01, 0x03, 0x40, 0x21, 0x12, 0x34, 0x0D, 0x77],
         [0x01, 0x03, 0x00, 0x00, 0x00, 0x0A, 0xC5, 0xCD]]"
  by code_simp

text \<open>
  C6. The claim has the extractor try every length up to and including
  \<open>min (remaining bytes) MAX_FRAME_SIZE\<close>, so that a buffer made of one valid frame of
  \<open>MAX_FRAME_SIZE = 256\<close> bytes is handed over. The inner loop stops one short of
  \<open>MAX_FRAME_SIZE\<close>: the buffer below is one valid frame of 256 bytes, its length is
  never tried, and the frame is not among the frames handed over.
\<close>

theorem max_size_frame_not_extracted:
  "length ([0x01, 0x03, 0xFA] @ replicate 251 0 @ [0xE9, 0xC6 :: byte]) = MAX_FRAME_SIZE \<and>
   verify_crc ([0x01, 0x03, 0xFA] @ replicate 251 0 @ [0xE9, 0xC6]) \<and>
   find_frame_len ([0x01, 0x03, 0xFA] @ replicate 251 0 @ [0xE9, 0xC6])
     \<noteq> Some (length ([0x01, 0x03, 0xFA] @ replicate 251 0 @ [0xE9, 0xC6 :: byte])) \<and>
   [0x01, 0x03, 0xFA] @ replicate 251 0 @ [0xE9, 0xC6]
     \<notin> set (fst (extract_frames ([0x01, 0x03, 0xFA] @ replicate 251 0 @ [0xE9, 0xC6])))"
proof -
  let ?F = "[0x01, 0x03, 0xFA] @ replicate 251 0 @ [0xE9, 0xC6 :: byte]"
  have len: "length ?F = MAX_FRAME_SIZE" by (simp add: MAX_FRAME_SIZE_def)
  have crc: "calculate_crc ([0x01, 0x03, 0xFA] @ replicate 251 0) = [0xE9, 0xC6]"
    by code_simp
  have "verify_crc (([0x01, 0x03, 0xFA] @ replicate 251 0) @ calculate_crc ([0x01, 0x03, 0xFA] @ replicate 251 0))"
    by (rule verify_crc_append) simp
  then have v: "verify_crc ?F" unfolding crc by simp
  have n: "find_frame_len ?F \<noteq> Some (length ?F)"
    using find_frame_len_SomeD(3) [of ?F "length ?F"] len by auto
  have "?F \<notin> set (fst (extract_frames ?F))"
    using extract_frames_emitted [of ?F ?F] len by auto
  with len v n show ?thesis by blast
qed

subsection \<open>The classifier\<close>

lemma high_bit_test: "(fc AND 0x80 \<noteq> 0) = bit fc 7" for fc :: byte
proof -
  have "(128 :: byte) = 2 ^ 7" by simp
  then show ?thesis by (simp only: and_exp_eq_0_iff_not_bit) simp
qed

text \<open>
  C2. \<open>is_modbus_request\<close> is a total function of the function code and the length of
  the frame alone. With bit 7 of the function code set it answers false; for the codes
  \<open>0x01\<close> to \<open>0x04\<close> it answers whether the frame has at most 8 bytes; for \<open>0x06\<close>, whether
  it has exactly 8; for \<open>0x10\<close>, whether it has more than 9; for any other code, true. So
  code \<open>0x03\<close> with 8 bytes is a request, and code \<open>0x83\<close> is a response at any length.
\<close>

theorem is_modbus_request_table:
  "is_modbus_request fc f =
     (if bit fc 7 then False
      else if fc = 0x01 \<or> fc = 0x02 \<or> fc = 0x03 \<or> fc = 0x04 then length f \<le> 8
      else if fc = 0x06 then length f = 8
      else if fc = 0x10 then length f > 9
      else True) \<and>
   (length f = length g \<longrightarrow> is_modbus_request fc f = is_modbus_request fc g) \<and>
   (length f = 8 \<longrightarrow> is_modbus_request 0x03 f) \<and>
   \<not> is_modbus_request 0x83 f"
proof (intro conjI)
  show "is_modbus_request fc f =
     (if bit fc 7 then False
      else if fc = 0x01 \<or> fc = 0x02 \<or> fc = 0x03 \<or> fc = 0x04 then length f \<le> 8
      else if fc = 0x06 then length f = 8
      else if fc = 0x10 then length f > 9
      else True)"
    unfolding is_modbus_request_def high_bit_test by simp
  show "length f = length g \<longrightarrow> is_modbus_request fc f = is_modbus_request fc g"
    by (simp add: is_modbus_request_def)
  show "length f = 8 \<longrightarrow> is_modbus_request 0x03 f"
    by (simp add: is_modbus_request_def)
  show "\<not> is_modbus_request 0x83 f"
    by (simp add: is_modbus_request_def)
qed

theorem is_modbus_request_table_witness:
  "is_modbus_request 0x03 [0x01, 0x03, 0x00, 0x00, 0x00, 0x0A, 0xC5, 0xCD] \<and>
   \<not> is_modbus_request 0x83 [0x01, 0x83, 0x02, 0xC0, 0xF1] \<and>
   \<not> is_modbus_request 0x03 [0x01, 0x03, 0x04, 0x00, 0x07, 0x00, 0x08, 0x0A, 0x31]"
proof -
  have "is_modbus_request 0x03 [0x01, 0x03, 0x00, 0x00, 0x00, 0x0A, 0xC5, 0xCD]"
    using is_modbus_request_table [where fc = 3 and f = "[0x01, 0x03, 0x00, 0x00, 0x00, 0x0A, 0xC5, 0xCD]"]
    by simp
  moreover have "\<not> is_modbus_request 0x83 [0x01, 0x83, 0x02, 0xC0, 0xF1]"
    using is_modbus_request_table [where f = "[0x01, 0x83, 0x02, 0xC0, 0xF1]"] by blast
  moreover have "\<not> is_modbus_request 0x03 [0x01, 0x03, 0x04, 0x00, 0x07, 0x00, 0x08, 0x0A, 0x31]"
    using is_modbus_request_table [where fc = 3 and f = "[0x01, 0x03, 0x04, 0x00, 0x07, 0x00, 0x08, 0x0A, 0x31]"]
    by simp
  ultimately show ?thesis by blast
qed

subsection \<open>The decoder\<close>

lemma temperature_not_status:
  "map_of register_mappings a = Some m \<Longrightarrow> device_class m = Some ''temperature'' \<Longrightarrow>
     a \<noteq> 2108 \<and> a \<noteq> 2118 \<and> a \<noteq> 2119"
  by (auto simp: register_mappings_def split: if_splits)

lemma mapping_names_distinct: "distinct (map (\<lambda>entry. name (snd entry)) register_mappings)"
  by (simp add: register_mappings_def)

lemma mapping_names_differ:
  assumes "map_of register_mappings a = Some m" "map_of register_mappings b = Some m'" "a \<noteq> b"
  shows "name m' \<noteq> name m"
proof
  assume eq: "name m' = name m"
  from assms(1,2) have in1: "(a, m) \<in> set register_mappings" and in2: "(b, m') \<in> set register_mappings"
    by (auto dest: map_of_SomeD)
  from mapping_names_distinct have "inj_on (\<lambda>entry. name (snd entry)) (set register_mappings)"
    by (simp add: distinct_map)
  from inj_onD [OF this _ in1 in2] eq have "(a, m) = (b, m')" by simp
  with assms(3) show False by simp
qed

lemma mapping_names_plain:
  assumes "map_of register_mappings a = Some m"
  shows "take 6 (name m) \<noteq> ''R2108 ''" and "take 6 (name m) \<noteq> ''R2119 ''"
    and "name m \<noteq> ''Defrost Mode Active''"
proof -
  from assms have "(a, m) \<in> set register_mappings" by (rule map_of_SomeD)
  moreover have "\<forall>(a, m) \<in> set register_mappings.
      take 6 (name m) \<noteq> ''R2108 '' \<and> take 6 (name m) \<noteq> ''R2119 '' \<and>
      name m \<noteq> ''Defrost Mode Active''"
    by (simp add: register_mappings_def)
  ultimately show "take 6 (name m) \<noteq> ''R2108 ''" "take 6 (name m) \<noteq> ''R2119 ''"
    "name m \<noteq> ''Defrost Mode Active''" by blast+
qed

lemma map_of_status_bits_other:
  "take 6 k \<noteq> prefix @ '' '' \<Longrightarrow> length prefix = 5 \<Longrightarrow>
     map_of (parse_status_bits pd v a bits prefix) k = map_of pd k"
  unfolding parse_status_bits_def
  by (induction bits arbitrary: pd) (auto simp: update_conv')

lemma map_of_parse_entry_other:
  assumes look: "map_of register_mappings a = Some m" and other: "start + int j \<noteq> a"
  shows "map_of (parse_entry start pd (j, v)) (name m) = map_of pd (name m)"
proof (cases "map_of register_mappings (start + int j)")
  case None
  then show ?thesis by (simp add: parse_entry_def)
next
  case (Some m')
  note d = mapping_names_differ [OF look Some other [symmetric]]
  note p = mapping_names_plain [OF look]
  show ?thesis
    using d p
    by (simp add: parse_entry_def Let_def Some update_conv' map_of_status_bits_other
          split: prod.splits)
qed

lemma map_of_foldl_parse_entry_other:
  "map_of register_mappings a = Some m \<Longrightarrow> \<forall>(j, v) \<in> set xs. start + int j \<noteq> a \<Longrightarrow>
     map_of (foldl (parse_entry start) pd xs) (name m) = map_of pd (name m)"
  by (induction xs arbitrary: pd) (auto simp: map_of_parse_entry_other)

lemma map_of_parse_entry_temperature:
  assumes look: "map_of register_mappings (start + int i) = Some m"
    and cls: "device_class m = Some ''temperature''"
  shows "map_of (parse_entry start pd (i, raw)) (name m) =
           Some \<lparr>rd_value = Number (snd (scale_register m raw)),
                 rd_unit = unit m,
                 rd_device_class = Some ''temperature'',
                 rd_register = Address (start + int i),
                 rd_raw_value = fst (scale_register m raw)\<rparr>"
  using temperature_not_status [OF look cls] cls
  by (simp add: parse_entry_def look update_conv' split: prod.splits)

lemma enumerate_split_at:
  assumes "i < length vals"
  shows "List.enumerate 0 vals =
      List.enumerate 0 (take i vals) @ (i, vals ! i) # List.enumerate (Suc i) (drop (Suc i) vals)"
proof -
  have "vals = take i vals @ vals ! i # drop (Suc i) vals"
    using assms by (simp add: id_take_nth_drop)
  then have "List.enumerate 0 vals =
      List.enumerate 0 (take i vals @ vals ! i # drop (Suc i) vals)" by simp
  also have "\<dots> = List.enumerate 0 (take i vals) @ (i, vals ! i)
      # List.enumerate (Suc i) (drop (Suc i) vals)"
    using assms by (simp add: enumerate_append_eq)
  finally show ?thesis .
qed

lemma map_of_parse_read_response_temperature:
  assumes i: "i < length vals"
    and look: "map_of register_mappings (start + int i) = Some m"
    and cls: "device_class m = Some ''temperature''"
  shows "map_of (parse_read_response start vals) (name m) =
           Some \<lparr>rd_value = Number (snd (scale_register m (vals ! i))),
                 rd_unit = unit m,
                 rd_device_class = Some ''temperature'',
                 rd_register = Address (start + int i),
                 rd_raw_value = fst (scale_register m (vals ! i))\<rparr>"
proof -
  have after: "\<forall>(j, v) \<in> set (List.enumerate (Suc i) (drop (Suc i) vals)).
      start + int j \<noteq> start + int i"
    by (auto simp: in_set_enumerate_eq)
  show ?thesis
    unfolding parse_read_response_def enumerate_split_at [OF i]
    by (simp add: map_of_foldl_parse_entry_other [OF look after]
          map_of_parse_entry_temperature [OF look cls])
qed

text \<open>
  C3. For a mapping of class temperature, a raw value above 32767 is first read as
  signed (65536 is subtracted), then the offset is added, then the sum is multiplied by
  the scale, and the product is clamped to \<open>[-30, 150]\<close>. For every value of a read
  response that falls on an address with such a mapping, the data returned by
  \<open>parse_read_response\<close> hold, under the mapping's name, the reading with exactly this
  value, the address as register and the signed value as raw value. With offset \<open>-3000\<close>
  and scale \<open>0.01\<close>, the raw value \<open>0xFFFF\<close> gives \<open>-30\<close>.
\<close>

theorem temperature_decoding:
  assumes cls: "device_class m = Some ''temperature''"
  shows "scale_register m raw =
           (let v = (if raw > 32767 then raw - 65536 else raw)
            in (v, max (-30) (min (of_int (v + offset m) * scale m) 150))) \<and>
         - 30 \<le> snd (scale_register m raw) \<and> snd (scale_register m raw) \<le> 150 \<and>
         (offset m = - 3000 \<and> scale m = 1 / 100 \<longrightarrow> scale_register m 0xFFFF = (- 1, - 30)) \<and>
         (map_of register_mappings (start_register + int i) = Some m \<longrightarrow>
            map_of (parse_entry start_register parsed_data (i, raw)) (name m) =
              Some \<lparr>rd_value = Number (snd (scale_register m raw)),
                    rd_unit = unit m,
                    rd_device_class = Some ''temperature'',
                    rd_register = Address (start_register + int i),
                    rd_raw_value = fst (scale_register m raw)\<rparr>) \<and>
         (i < length vals \<and> map_of register_mappings (start_register + int i) = Some m \<longrightarrow>
            map_of (parse_read_response start_register vals) (name m) =
              (let v = (if vals ! i > 32767 then vals ! i - 65536 else vals ! i)
               in Some \<lparr>rd_value = Number (max (-30) (min (of_int (v + offset m) * scale m) 150)),
                        rd_unit = unit m,
                        rd_device_class = Some ''temperature'',
                        rd_register = Address (start_register + int i),
                        rd_raw_value = v\<rparr>)) \<and>
         (i < length vals \<and> map_of register_mappings (start_register + int i) = Some m \<and>
          vals ! i = 0xFFFF \<and> offset m = - 3000 \<and> scale m = 1 / 100 \<longrightarrow>
            map_of (parse_read_response start_register vals) (name m) =
              Some \<lparr>rd_value = Number (- 30),
                    rd_unit = unit m,
                    rd_device_class = Some ''temperature'',
                    rd_register = Address (start_register + int i),
                    rd_raw_value = - 1\<rparr>)"
proof (intro conjI)
  show eq: "scale_register m raw =
           (let v = (if raw > 32767 then raw - 65536 else raw)
            in (v, max (-30) (min (of_int (v + offset m) * scale m) 150)))" for raw
    using cls by (simp add: scale_register_def Let_def TEMPERATURE_MIN_def TEMPERATURE_MAX_def)
  show "- 30 \<le> snd (scale_register m raw)" "snd (scale_register m raw) \<le> 150"
    unfolding eq by (simp_all add: Let_def)
  show "offset m = - 3000 \<and> scale m = 1 / 100 \<longrightarrow> scale_register m 0xFFFF = (- 1, - 30)"
    using cls by (simp add: scale_register_def Let_def TEMPERATURE_MIN_def TEMPERATURE_MAX_def)
  show "map_of register_mappings (start_register + int i) = Some m \<longrightarrow>
            map_of (parse_entry start_register parsed_data (i, raw)) (name m) =
              Some \<lparr>rd_value = Number (snd (scale_register m raw)),
                    rd_unit = unit m,
                    rd_device_class = Some ''temperature'',
                    rd_register = Address (start_register + int i),
                    rd_raw_value = fst (scale_register m raw)\<rparr>"
    by (simp add: map_of_parse_entry_temperature cls)
  show all: "i < length vals \<and> map_of register_mappings (start_register + int i) = Some m \<longrightarrow>
            map_of (parse_read_response start_register vals) (name m) =
              (let v = (if vals ! i > 32767 then vals ! i - 65536 else vals ! i)
               in Some \<lparr>rd_value = Number (max (-30) (min (of_int (v + offset m) * scale m) 150)),
                        rd_unit = unit m,
                        rd_device_class = Some ''temperature'',
                        rd_register = Address (start_register + int i),
                        rd_raw_value = v\<rparr>)"
  proof
    assume h: "i < length vals \<and> map_of register_mappings (start_register + int i) = Some m"
    then have i: "i < length vals"
      and look: "map_of register_mappings (start_register + int i) = Some m" by simp_all
    show "map_of (parse_read_response start_register vals) (name m) =
              (let v = (if vals ! i > 32767 then vals ! i - 65536 else vals ! i)
               in Some \<lparr>rd_value = Number (max (-30) (min (of_int (v + offset m) * scale m) 150)),
                        rd_unit = unit m,
                        rd_device_class = Some ''temperature'',
                        rd_register = Address (start_register + int i),
                        rd_raw_value = v\<rparr>)"
      unfolding map_of_parse_read_response_temperature [OF i look cls] eq
      by (simp add: Let_def)
  qed
  show "i < length vals \<and> map_of register_mappings (start_register + int i) = Some m \<and>
          vals ! i = 0xFFFF \<and> offset m = - 3000 \<and> scale m = 1 / 100 \<longrightarrow>
            map_of (parse_read_response start_register vals) (name m) =
              Some \<lparr>rd_value = Number (- 30),
                    rd_unit = unit m,
                    rd_device_class = Some ''temperature'',
                    rd_register = Address (start_register + int i),
                    rd_raw_value = - 1\<rparr>"
  proof
    assume h: "i < length vals \<and> map_of register_mappings (start_register + int i) = Some m \<and>
          vals ! i = 0xFFFF \<and> offset m = - 3000 \<and> scale m = 1 / 100"
    then have i: "i < length vals"
      and look: "map_of register_mappings (start_register + int i) = Some m"
      and v: "vals ! i = 0xFFFF" "offset m = - 3000" "scale m = 1 / 100" by simp_all
    show "map_of (parse_read_response start_register vals) (name m) =
              Some \<lparr>rd_value = Number (- 30),
                    rd_unit = unit m,
                    rd_device_class = Some ''temperature'',
                    rd_register = Address (start_register + int i),
                    rd_raw_value = - 1\<rparr>"
      unfolding map_of_parse_read_response_temperature [OF i look cls] eq v
      by (simp add: Let_def)
  qed
qed

lemma outside_temperature:
  "map_of register_mappings 2110 =
     Some \<lparr>name = ''Outside Temperature'', unit = deg_unit, scale = 1/100, offset = -3000,
           device_class = Some ''temperature''\<rparr>"
  by (simp add: register_mappings_def)

lemma read_response_example:
  "parse_read_response 2109 [7, 0xFFFF, 100] =
     [(''EV1 Steps'',
         \<lparr>rd_value = Number 7, rd_unit = ''p'', rd_device_class = None,
          rd_register = Address 2109, rd_raw_value = 7\<rparr>),
      (''Outside Temperature'',
         \<lparr>rd_value = Number (- 30), rd_unit = deg_unit, rd_device_class = Some ''temperature'',
          rd_register = Address 2110, rd_raw_value = - 1\<rparr>),
      (''Evaporator Coil Temperature'',
         \<lparr>rd_value = Number (- 29), rd_unit = deg_unit, rd_device_class = Some ''temperature'',
          rd_register = Address 2111, rd_raw_value = 100\<rparr>)]"
  by code_simp

theorem temperature_decoding_witness:
  "device_class \<lparr>name = ''Outside Temperature'', unit = deg_unit, scale = 1/100,
                 offset = -3000, device_class = Some ''temperature''\<rparr> = Some ''temperature'' \<and>
   scale_register \<lparr>name = ''Outside Temperature'', unit = deg_unit, scale = 1/100,
                   offset = -3000, device_class = Some ''temperature''\<rparr> 0xFFFF = (- 1, - 30) \<and>
   map_of (parse_entry 2110 [] (0, 0xFFFF)) ''Outside Temperature'' =
     Some \<lparr>rd_value = Number (- 30), rd_unit = deg_unit,
           rd_device_class = Some ''temperature'', rd_register = Address 2110,
           rd_raw_value = - 1\<rparr> \<and>
   1 < length [7, 0xFFFF, 100 :: int] \<and>
   map_of register_mappings (2109 + int 1) =
     Some \<lparr>name = ''Outside Temperature'', unit = deg_unit, scale = 1/100, offset = -3000,
           device_class = Some ''temperature''\<rparr> \<and>
   map_of (parse_read_response 2109 [7, 0xFFFF, 100]) ''Outside Temperature'' =
     Some \<lparr>rd_value = Number (- 30), rd_unit = deg_unit,
           rd_device_class = Some ''temperature'', rd_register = Address 2110,
           rd_raw_value = - 1\<rparr>"
proof -
  let ?m = "\<lparr>name = ''Outside Temperature'', unit = deg_unit, scale = 1/100,
             offset = -3000, device_class = Some ''temperature''\<rparr>"
  have cls: "device_class ?m = Some ''temperature''" by simp
  have look: "map_of register_mappings (2109 + int 1) = Some ?m"
    using outside_temperature by simp
  have i: "1 < length [7, 0xFFFF, 100 :: int]" by simp
  note t = temperature_decoding [OF cls, where raw = 65535 and start_register = 2110 and i = 0
      and parsed_data = "[]"]
  note u = temperature_decoding [OF cls, where start_register = 2109 and i = 1
      and vals = "[7, 0xFFFF, 100]"]
  from t have v: "scale_register ?m 0xFFFF = (- 1, - 30)" by simp
  from t outside_temperature
  have "map_of (parse_entry 2110 [] (0, 0xFFFF)) (name ?m) =
          Some \<lparr>rd_value = Number (snd (scale_register ?m 0xFFFF)), rd_unit = unit ?m,
                rd_device_class = Some ''temperature'', rd_register = Address (2110 + int 0),
                rd_raw_value = fst (scale_register ?m 0xFFFF)\<rparr>"
    by simp
  with v have e: "map_of (parse_entry 2110 [] (0, 0xFFFF)) ''Outside Temperature'' =
     Some \<lparr>rd_value = Number (- 30), rd_unit = deg_unit,
           rd_device_class = Some ''temperature'', rd_register = Address 2110,
           rd_raw_value = - 1\<rparr>" by simp
  from u i look
  have "map_of (parse_read_response 2109 [7, 0xFFFF, 100]) (name ?m) =
     Some \<lparr>rd_value = Number (- 30), rd_unit = unit ?m,
           rd_device_class = Some ''temperature'', rd_register = Address (2109 + int 1),
           rd_raw_value = - 1\<rparr>"
    by simp
  then have r: "map_of (parse_read_response 2109 [7, 0xFFFF, 100]) ''Outside Temperature'' =
     Some \<lparr>rd_value = Number (- 30), rd_unit = deg_unit,
           rd_device_class = Some ''temperature'', rd_register = Address 2110,
           rd_raw_value = - 1\<rparr>" by simp
  from cls v e i look r show ?thesis by (intro conjI)
qed

lemma readings_update_other:
  "take 6 k \<noteq> ''R2108 '' \<Longrightarrow> r2108_readings (AList.update k v al) = r2108_readings al"
  by (induction al) (auto simp: r2108_readings_def)

lemma readings_update_same:
  "take 6 k = ''R2108 '' \<Longrightarrow>
     r2108_readings (AList.update k v al) = AList.update k v (r2108_readings al)"
  by (induction al) (auto simp: r2108_readings_def)

lemma readings_status_bits_other:
  "take 6 (prefix @ '' '') \<noteq> ''R2108 '' \<Longrightarrow> length prefix = 5 \<Longrightarrow>
     r2108_readings (parse_status_bits pd v a bits prefix) = r2108_readings pd"
  unfolding parse_status_bits_def
  by (induction bits arbitrary: pd) (auto simp: readings_update_other)

lemma readings_status_bits_same:
  "r2108_readings (parse_status_bits pd v a bits ''R2108'') =
     parse_status_bits (r2108_readings pd) v a bits ''R2108''"
  unfolding parse_status_bits_def
  by (induction bits arbitrary: pd) (auto simp: readings_update_same)

lemma mapping_names_other:
  "map_of register_mappings a = Some m \<Longrightarrow> take 6 (name m) \<noteq> ''R2108 ''"
proof -
  assume "map_of register_mappings a = Some m"
  then have "(a, m) \<in> set register_mappings" by (rule map_of_SomeD)
  moreover have "\<forall>(a, m) \<in> set register_mappings. take 6 (name m) \<noteq> ''R2108 ''"
    by (simp add: register_mappings_def)
  ultimately show ?thesis by blast
qed

lemma readings_parse_entry_other:
  assumes "start + int j \<noteq> 2108"
  shows "r2108_readings (parse_entry start pd (j, v)) = r2108_readings pd"
proof (cases "map_of register_mappings (start + int j)")
  case None
  then show ?thesis by (simp add: parse_entry_def)
next
  case (Some m)
  note nm = mapping_names_other [OF Some]
  show ?thesis
    using assms nm
    by (simp add: parse_entry_def Let_def Some readings_update_other readings_status_bits_other
          split: prod.splits)
qed

lemma readings_foldl_other:
  "\<forall>(j, v) \<in> set xs. start + int j \<noteq> 2108 \<Longrightarrow>
     r2108_readings (foldl (parse_entry start) pd xs) = r2108_readings pd"
  by (induction xs arbitrary: pd) (auto simp: readings_parse_entry_other)

lemma status_register:
  "map_of register_mappings 2108 =
     Some \<lparr>name = ''Status Bits R2108'', unit = '''', scale = 1, offset = 0, device_class = None\<rparr>"
  by (simp add: register_mappings_def)

lemma str_int_2108: "str_int 2108 = ''2108''"
  by code_simp

lemma readings_parse_entry_status:
  assumes "start + int i = 2108"
  shows "r2108_readings (parse_entry start pd (i, v)) =
           parse_status_bits (r2108_readings pd) v 2108 r2108_bits ''R2108''"
  using assms
  by (simp add: parse_entry_def Let_def status_register scale_register_def
        readings_status_bits_same readings_update_other)

lemma status_bits_0x21:
  "parse_status_bits [] 0x21 2108 r2108_bits ''R2108'' =
     map (\<lambda>(bit_num, info).
            (''R2108 '' @ bit_name info,
             \<lparr>rd_value = Flag (0x21 AND bitmask info \<noteq> 0), rd_unit = '''',
              rd_device_class = Some ''binary_sensor'',
              rd_register = Bit_of (''2108b'' @ str_nat bit_num),
              rd_raw_value = 0x21\<rparr>)) r2108_bits"
  by (simp add: parse_status_bits_def r2108_bits_def str_int_2108)

lemma r2108_table_0x21:
  "map (\<lambda>(bit_num, info).
          (''R2108 '' @ bit_name info,
           \<lparr>rd_value = Flag (0x21 AND bitmask info \<noteq> 0), rd_unit = '''',
            rd_device_class = Some ''binary_sensor'',
            rd_register = Bit_of (''2108b'' @ str_nat bit_num),
            rd_raw_value = 0x21\<rparr>)) r2108_bits =
   [(''R2108 Fan Low Speed Mode'',
       \<lparr>rd_value = Flag True, rd_unit = '''', rd_device_class = Some ''binary_sensor'',
        rd_register = Bit_of ''2108b0'', rd_raw_value = 0x21\<rparr>),
    (''R2108 Bottom Heater'',
       \<lparr>rd_value = Flag False, rd_unit = '''', rd_device_class = Some ''binary_sensor'',
        rd_register = Bit_of ''2108b2'', rd_raw_value = 0x21\<rparr>),
    (''R2108 Crankcase Heater'',
       \<lparr>rd_value = Flag False, rd_unit = '''', rd_device_class = Some ''binary_sensor'',
        rd_register = Bit_of ''2108b3'', rd_raw_value = 0x21\<rparr>),
    (''R2108 Fan Defrost Speed Mode'',
       \<lparr>rd_value = Flag False, rd_unit = '''', rd_device_class = Some ''binary_sensor'',
        rd_register = Bit_of ''2108b4'', rd_raw_value = 0x21\<rparr>),
    (''R2108 Fan High Speed Mode'',
       \<lparr>rd_value = Flag True, rd_unit = '''', rd_device_class = Some ''binary_sensor'',
        rd_register = Bit_of ''2108b5'', rd_raw_value = 0x21\<rparr>),
    (''R2108 4way Valve'',
       \<lparr>rd_value = Flag False, rd_unit = '''', rd_device_class = Some ''binary_sensor'',
        rd_register = Bit_of ''2108b6'', rd_raw_value = 0x21\<rparr>),
    (''R2108 Pump Relay'',
       \<lparr>rd_value = Flag False, rd_unit = '''', rd_device_class = Some ''binary_sensor'',
        rd_register = Bit_of ''2108b11'', rd_raw_value = 0x21\<rparr>)]"
  by code_simp

text \<open>
  C8. When a read response carries the raw value \<open>0x21\<close> for register 2108, the
  readings named \<open>R2108 \<dots>\<close> in the decoded data are, in the order of the bit table, one
  per entry of \<open>r2108_bits\<close>: named \<open>R2108\<close>, a space and the bit's name, with the value
  \<open>(0x21 & mask) != 0\<close> and the register text \<open>2108b\<close> followed by the bit number. The
  readings of bit 0 (Fan Low Speed Mode) and bit 5 (Fan High Speed Mode) are true and the
  five others false.
\<close>

theorem status_bits_r2108:
  assumes i: "i < length vals" and addr: "start_register + int i = 2108"
    and raw: "vals ! i = 0x21"
  shows "filter (\<lambda>entry. take 6 (fst entry) = ''R2108 '') (parse_read_response start_register vals) =
           map (\<lambda>(bit_num, info).
                  (''R2108 '' @ bit_name info,
                   \<lparr>rd_value = Flag (0x21 AND bitmask info \<noteq> 0), rd_unit = '''',
                    rd_device_class = Some ''binary_sensor'',
                    rd_register = Bit_of (''2108b'' @ str_nat bit_num),
                    rd_raw_value = 0x21\<rparr>)) r2108_bits \<and>
         map (\<lambda>(bit_num, info). (bit_num, bit_name info, 0x21 AND bitmask info \<noteq> 0)) r2108_bits =
           [(0, ''Fan Low Speed Mode'', True), (2, ''Bottom Heater'', False),
            (3, ''Crankcase Heater'', False), (4, ''Fan Defrost Speed Mode'', False),
            (5, ''Fan High Speed Mode'', True), (6, ''4way Valve'', False),
            (11, ''Pump Relay'', False)]"
proof
  let ?step = "parse_entry start_register"
  have split: "List.enumerate 0 vals =
      List.enumerate 0 (take i vals) @ (i, 0x21) # List.enumerate (Suc i) (drop (Suc i) vals)"
  proof -
    have "vals = take i vals @ vals ! i # drop (Suc i) vals"
      using i by (simp add: id_take_nth_drop)
    then have "List.enumerate 0 vals =
        List.enumerate 0 (take i vals @ vals ! i # drop (Suc i) vals)" by simp
    also have "\<dots> = List.enumerate 0 (take i vals) @ (i, vals ! i)
        # List.enumerate (Suc i) (drop (Suc i) vals)"
      using i by (simp add: enumerate_append_eq)
    finally show ?thesis using raw by simp
  qed
  have before: "\<forall>(j, v) \<in> set (List.enumerate 0 (take i vals)). start_register + int j \<noteq> 2108"
    using addr i by (auto simp: in_set_enumerate_eq)
  have after: "\<forall>(j, v) \<in> set (List.enumerate (Suc i) (drop (Suc i) vals)).
      start_register + int j \<noteq> 2108"
    using addr by (auto simp: in_set_enumerate_eq)
  have "r2108_readings (parse_read_response start_register vals) =
      r2108_readings (?step (foldl ?step [] (List.enumerate 0 (take i vals))) (i, 0x21))"
    unfolding parse_read_response_def split
    by (simp add: readings_foldl_other [OF after])
  also have "\<dots> = parse_status_bits
      (r2108_readings (foldl ?step [] (List.enumerate 0 (take i vals)))) 0x21 2108 r2108_bits ''R2108''"
    by (rule readings_parse_entry_status [OF addr])
  also have "r2108_readings (foldl ?step [] (List.enumerate 0 (take i vals))) = []"
    by (simp add: readings_foldl_other [OF before]) (simp add: r2108_readings_def)
  finally show "filter (\<lambda>entry. take 6 (fst entry) = ''R2108 '') (parse_read_response start_register vals) =
           map (\<lambda>(bit_num, info).
                  (''R2108 '' @ bit_name info,
                   \<lparr>rd_value = Flag (0x21 AND bitmask info \<noteq> 0), rd_unit = '''',
                    rd_device_class = Some ''binary_sensor'',
                    rd_register = Bit_of (''2108b'' @ str_nat bit_num),
                    rd_raw_value = 0x21\<rparr>)) r2108_bits"
    unfolding status_bits_0x21 r2108_readings_def .
  show "map (\<lambda>(bit_num, info). (bit_num, bit_name info, 0x21 AND bitmask info \<noteq> 0)) r2108_bits =
           [(0, ''Fan Low Speed Mode'', True), (2, ''Bottom Heater'', False),
            (3, ''Crankcase Heater'', False), (4, ''Fan Defrost Speed Mode'', False),
            (5, ''Fan High Speed Mode'', True), (6, ''4way Valve'', False),
            (11, ''Pump Relay'', False)]"
    by code_simp
qed

theorem status_bits_r2108_witness:
  "1 < length [5, 0x21, 7 :: int] \<and> 2107 + int 1 = 2108 \<and> [5, 0x21, 7 :: int] ! 1 = 0x21 \<and>
   filter (\<lambda>entry. take 6 (fst entry) = ''R2108 '') (parse_read_response 2107 [5, 0x21, 7]) =
   [(''R2108 Fan Low Speed Mode'',
       \<lparr>rd_value = Flag True, rd_unit = '''', rd_device_class = Some ''binary_sensor'',
        rd_register = Bit_of ''2108b0'', rd_raw_value = 0x21\<rparr>),
    (''R2108 Bottom Heater'',
       \<lparr>rd_value = Flag False, rd_unit = '''', rd_device_class = Some ''binary_sensor'',
        rd_register = Bit_of ''2108b2'', rd_raw_value = 0x21\<rparr>),
    (''R2108 Crankcase Heater'',
       \<lparr>rd_value = Flag False, rd_unit = '''', rd_device_class = Some ''binary_sensor'',
        rd_register = Bit_of ''2108b3'', rd_raw_value = 0x21\<rparr>),
    (''R2108 Fan Defrost Speed Mode'',
       \<lparr>rd_value = Flag False, rd_unit = '''', rd_device_class = Some ''binary_sensor'',
        rd_register = Bit_of ''2108b4'', rd_raw_value = 0x21\<rparr>),
    (''R2108 Fan High Speed Mode'',
       \<lparr>rd_value = Flag True, rd_unit = '''', rd_device_class = Some ''binary_sensor'',
        rd_register = Bit_of ''2108b5'', rd_raw_value = 0x21\<rparr>),
    (''R2108 4way Valve'',
       \<lparr>rd_value = Flag False, rd_unit = '''', rd_device_class = Some ''binary_sensor'',
        rd_register = Bit_of ''2108b6'', rd_raw_value = 0x21\<rparr>),
    (''R2108 Pump Relay'',
       \<lparr>rd_value = Flag False, rd_unit = '''', rd_device_class = Some ''binary_sensor'',
        rd_register = Bit_of ''2108b11'', rd_raw_value = 0x21\<rparr>)]"
proof -
  have i: "1 < length [5, 0x21, 7 :: int]" and addr: "2107 + int 1 = 2108"
    and raw: "[5, 0x21, 7 :: int] ! 1 = 0x21" by simp_all
  from status_bits_r2108 [OF i addr raw] i addr raw show ?thesis
    unfolding r2108_table_0x21 by blast
qed

subsection \<open>Frame processing: auxiliary facts\<close>

lemma count_stat_fields [simp]:
  "mqtt (count_stat s x) = mqtt s"
  "pending_requests (count_stat s x) = pending_requests s"
  "slave_stats (count_stat s x) = slave_stats s"
  "discovered_slaves (count_stat s x) = discovered_slaves s"
  "stats (count_stat s x) = bump x (stats s)"
  by (simp_all add: count_stat_def)

lemma count_slave_stat_fields [simp]:
  "mqtt (count_slave_stat s d x) = mqtt s"
  "pending_requests (count_slave_stat s d x) = pending_requests s"
  "stats (count_slave_stat s d x) = stats s"
  "discovered_slaves (count_slave_stat s d x) = discovered_slaves s"
  by (simp_all add: count_slave_stat_def)

lemma bump_total_frames [simp]:
  "total_frames (bump x c) = (if x = Total_frames then total_frames c + 1 else total_frames c)"
  by (cases x) simp_all

lemma bump_valid_frames [simp]:
  "valid_frames (bump x c) = (if x = Valid_frames then valid_frames c + 1 else valid_frames c)"
  by (cases x) simp_all

lemma count_publishes_fields:
  "mqtt (foldl (\<lambda>st entry. count_slave_stat (count_stat st Mqtt_publishes) d Mqtt_publishes) s xs)
     = mqtt s"
  "pending_requests (foldl (\<lambda>st entry. count_slave_stat (count_stat st Mqtt_publishes) d Mqtt_publishes) s xs)
     = pending_requests s"
  "total_frames (stats (foldl (\<lambda>st entry. count_slave_stat (count_stat st Mqtt_publishes) d Mqtt_publishes) s xs))
     = total_frames (stats s)"
  "valid_frames (stats (foldl (\<lambda>st entry. count_slave_stat (count_stat st Mqtt_publishes) d Mqtt_publishes) s xs))
     = valid_frames (stats s)"
  by (induction xs arbitrary: s) simp_all

lemma setup_fields [simp]:
  "mqtt (fst (setup_ha_sensors_for_slave s d)) = mqtt s"
  "pending_requests (fst (setup_ha_sensors_for_slave s d)) = pending_requests s"
  "stats (fst (setup_ha_sensors_for_slave s d)) = stats s"
  "\<not> emits_stats (snd (setup_ha_sensors_for_slave s d))"
  by (simp_all add: setup_ha_sensors_for_slave_def emits_stats_def is_stats_def)

lemma handle_sensor_data_fields:
  "mqtt (fst (handle_sensor_data s f r d rt)) = mqtt s"
  "pending_requests (fst (handle_sensor_data s f r d rt)) = pending_requests s"
  "total_frames (stats (fst (handle_sensor_data s f r d rt))) = total_frames (stats s)"
  "valid_frames (stats (fst (handle_sensor_data s f r d rt))) = valid_frames (stats s)"
  by (simp_all add: handle_sensor_data_def Let_def count_publishes_fields
        split: option.splits prod.splits)
    (metis fst_conv setup_fields)+

lemma handle_sensor_data_no_stats:
  "\<not> emits_stats (snd (handle_sensor_data s f r d rt))"
proof -
  have "\<not> list_ex is_stats (map (\<lambda>(k, v). Sensor_published d k v) xs)" for xs
    by (induction xs) (auto simp: is_stats_def)
  moreover have "\<not> list_ex is_stats (snd (setup_ha_sensors_for_slave s d))"
    using setup_fields(4) [of s d] by (simp add: emits_stats_def)
  ultimately show ?thesis
    by (auto simp: handle_sensor_data_def Let_def emits_stats_def is_stats_def
        split: option.splits prod.splits)
qed

lemma handle_sensor_data_unmatched: "handle_sensor_data s f None d rt = (s, [])"
  by (simp add: handle_sensor_data_def)

lemma emits_stats_append [simp]:
  "emits_stats (xs @ ys) \<longleftrightarrow> emits_stats xs \<or> emits_stats ys"
  by (simp add: emits_stats_def list_ex_iff) blast

lemma emits_stats_simps [simp]:
  "\<not> emits_stats []"
  "emits_stats (Request_logged d f # xs) = emits_stats xs"
  "emits_stats (Response_logged d f rt r # xs) = emits_stats xs"
  "emits_stats (publish_stats s) = mqtt s"
  by (simp_all add: emits_stats_def is_stats_def publish_stats_def)

lemma process_frame_short:
  "length f < MIN_FRAME_SIZE \<Longrightarrow> process_frame s f t = (count_stat s Total_frames, [])"
  by (simp add: process_frame_def Let_def)

lemma process_frame_mqtt: "mqtt (fst (process_frame s f t)) = mqtt s"
  by (simp add: process_frame_def Let_def case_prod_beta handle_sensor_data_fields)

lemma process_frame_total:
  "total_frames (stats (fst (process_frame s f t))) = total_frames (stats s) + 1"
  by (simp add: process_frame_def Let_def case_prod_beta handle_sensor_data_fields)

lemma process_frame_valid:
  "valid_frames (stats (fst (process_frame s f t))) =
     (if length f < MIN_FRAME_SIZE then valid_frames (stats s) else valid_frames (stats s) + 1)"
  by (simp add: process_frame_def Let_def case_prod_beta handle_sensor_data_fields)

lemma process_frame_emits:
  "emits_stats (snd (process_frame s f t)) \<longleftrightarrow>
     mqtt s \<and> MIN_FRAME_SIZE \<le> length f \<and>
     (total_frames (stats s) + 1) mod STATS_PUBLISH_INTERVAL = 0"
  by (auto simp: process_frame_def Let_def case_prod_beta handle_sensor_data_fields
        handle_sensor_data_no_stats)

lemma process_frame_request:
  assumes "MIN_FRAME_SIZE \<le> length f" "is_modbus_request (f ! 1) f"
  shows "pending_requests (fst (process_frame s f t)) =
           AList.update (f ! 0) \<lparr>req_frame = f, req_time = t, req_function_code = f ! 1\<rparr>
             (pending_requests s)"
  using assms by (simp add: process_frame_def Let_def case_prod_beta)

lemma process_frame_response:
  assumes "MIN_FRAME_SIZE \<le> length f" "\<not> is_modbus_request (f ! 1) f"
  shows "pending_requests (fst (process_frame s f t)) =
           snd (snd (match_response (pending_requests s) (f ! 0) t))"
    and "snd (process_frame s f t) \<noteq> []"
    and "hd (snd (process_frame s f t)) =
           Response_logged (f ! 0) f (fst (match_response (pending_requests s) (f ! 0) t))
             (fst (snd (match_response (pending_requests s) (f ! 0) t)))"
    and "fst (snd (match_response (pending_requests s) (f ! 0) t)) = None \<Longrightarrow>
           tl (snd (process_frame s f t)) = [] \<or>
           tl (snd (process_frame s f t)) = publish_stats (fst (process_frame s f t))"
  using assms
  by (simp_all add: process_frame_def Let_def case_prod_beta handle_sensor_data_fields
        handle_sensor_data_unmatched)

lemma process_all_snoc:
  "process_all s (trace @ [(f, t)]) = fst (process_frame (process_all s trace) f t)"
  by (simp add: process_all_def)

lemma process_all_mqtt: "mqtt (process_all s trace) = mqtt s"
  by (induction trace rule: rev_induct)
    (simp_all add: process_all_def process_frame_mqtt case_prod_beta)

lemma process_all_total:
  "total_frames (stats (process_all s trace)) = total_frames (stats s) + length trace"
  by (induction trace rule: rev_induct)
    (simp_all add: process_all_def process_frame_total case_prod_beta)

lemma process_all_valid:
  "valid_frames (stats (process_all s trace)) =
     valid_frames (stats s) + length (filter (\<lambda>(f, t). MIN_FRAME_SIZE \<le> length f) trace)"
  by (induction trace rule: rev_induct)
    (auto simp: process_all_def process_frame_valid case_prod_beta)

lemma process_frame_pending:
  "pending_requests (fst (process_frame s f t)) =
     (if length f < MIN_FRAME_SIZE then pending_requests s
      else if is_modbus_request (f ! 1) f then
        AList.update (f ! 0) \<lparr>req_frame = f, req_time = t, req_function_code = f ! 1\<rparr>
          (pending_requests s)
      else snd (snd (match_response (pending_requests s) (f ! 0) t)))"
  using process_frame_request [of f s t] process_frame_response(1) [of f s t]
  by (simp add: process_frame_short)

lemma match_response_table:
  "snd (snd (match_response table d t)) =
     (if map_of table d = None then table else AList.delete d table)"
  by (simp add: match_response_def split: option.splits)

lemma reachable_distinct: "reachable s \<Longrightarrow> distinct (map fst (pending_requests s))"
proof (induction rule: reachable.induct)
  case (start m)
  show ?case by (simp add: init_sniffer_def)
next
  case (step s frame_data current_time)
  then show ?case
    by (simp add: process_frame_pending match_response_table distinct_update distinct_delete)
qed

lemma distinct_keys_count:
  "distinct (map fst al) \<Longrightarrow> length (filter (\<lambda>e. fst e = d) al) \<le> 1"
proof (induction al)
  case Nil
  show ?case by simp
next
  case (Cons a al)
  show ?case
  proof (cases "fst a = d")
    case True
    with Cons.prems have "d \<notin> fst ` set al" by auto
    then have "filter (\<lambda>e. fst e = d) al = []" by (auto simp: filter_empty_conv)
    with True show ?thesis by simp
  next
    case False
    with Cons show ?thesis by simp
  qed
qed

lemma present_key_count:
  "map_of al d = Some v \<Longrightarrow> 1 \<le> length (filter (\<lambda>e. fst e = d) al)"
proof -
  assume "map_of al d = Some v"
  then have "(d, v) \<in> set al" by (rule map_of_SomeD)
  then have "filter (\<lambda>e. fst e = d) al \<noteq> []"
    unfolding filter_empty_conv by force
  then show ?thesis by (cases "filter (\<lambda>e. fst e = d) al") simp_all
qed

lemma first_request_pending:
  "pending_requests (fst (process_frame (init_sniffer True)
       [0x01, 0x03, 0x00, 0x00, 0x00, 0x0A, 0xC5, 0xCD] 10)) =
     [(1, \<lparr>req_frame = [0x01, 0x03, 0x00, 0x00, 0x00, 0x0A, 0xC5, 0xCD], req_time = 10,
           req_function_code = 3\<rparr>)]"
  by (simp add: process_frame_request is_modbus_request_def MIN_FRAME_SIZE_def init_sniffer_def)

subsection \<open>The pending requests\<close>

text \<open>
  C9. In every reachable state the table of pending requests has at most one entry for
  each device id. Processing a frame that is classified as a request sets the entry of
  its device to that frame with the time of its arrival, whatever entry the device had:
  afterwards the device has exactly one entry, the new one, and the entries of the other
  devices are as before.
\<close>

theorem pending_requests_one_per_device:
  assumes "reachable s"
  shows "distinct (map fst (pending_requests s)) \<and>
         (\<forall>d. length (filter (\<lambda>e. fst e = d) (pending_requests s)) \<le> 1) \<and>
         (MIN_FRAME_SIZE \<le> length f \<and> is_modbus_request (f ! 1) f \<longrightarrow>
            map_of (pending_requests (fst (process_frame s f t))) (f ! 0) =
              Some \<lparr>req_frame = f, req_time = t, req_function_code = f ! 1\<rparr> \<and>
            length (filter (\<lambda>e. fst e = f ! 0) (pending_requests (fst (process_frame s f t)))) = 1 \<and>
            (\<forall>d. d \<noteq> f ! 0 \<longrightarrow>
               map_of (pending_requests (fst (process_frame s f t))) d =
               map_of (pending_requests s) d))"
proof (intro conjI impI allI)
  show d: "distinct (map fst (pending_requests s))" by (rule reachable_distinct [OF assms])
  show "length (filter (\<lambda>e. fst e = d) (pending_requests s)) \<le> 1" for d
    by (rule distinct_keys_count [OF d])
next
  assume req: "MIN_FRAME_SIZE \<le> length f \<and> is_modbus_request (f ! 1) f"
  then have p: "pending_requests (fst (process_frame s f t)) =
      AList.update (f ! 0) \<lparr>req_frame = f, req_time = t, req_function_code = f ! 1\<rparr>
        (pending_requests s)"
    by (simp add: process_frame_request)
  show m: "map_of (pending_requests (fst (process_frame s f t))) (f ! 0) =
      Some \<lparr>req_frame = f, req_time = t, req_function_code = f ! 1\<rparr>"
    unfolding p by (simp add: update_conv')
  have "reachable (fst (process_frame s f t))" by (rule reachable.step [OF assms])
  then have "length (filter (\<lambda>e. fst e = f ! 0) (pending_requests (fst (process_frame s f t)))) \<le> 1"
    by (intro distinct_keys_count reachable_distinct)
  with present_key_count [OF m]
  show "length (filter (\<lambda>e. fst e = f ! 0) (pending_requests (fst (process_frame s f t)))) = 1"
    by simp
  show "map_of (pending_requests (fst (process_frame s f t))) d = map_of (pending_requests s) d"
    if "d \<noteq> f ! 0" for d
    unfolding p using that by (simp add: update_conv')
qed

theorem pending_requests_one_per_device_witness:
  "reachable (fst (process_frame (init_sniffer True)
       [0x01, 0x03, 0x00, 0x00, 0x00, 0x0A, 0xC5, 0xCD] 10)) \<and>
   map_of (pending_requests (fst (process_frame (init_sniffer True)
       [0x01, 0x03, 0x00, 0x00, 0x00, 0x0A, 0xC5, 0xCD] 10))) 1 =
     Some \<lparr>req_frame = [0x01, 0x03, 0x00, 0x00, 0x00, 0x0A, 0xC5, 0xCD], req_time = 10,
           req_function_code = 3\<rparr> \<and>
   MIN_FRAME_SIZE \<le> length [0x01, 0x03, 0x00, 0x00, 0x00, 0x02, 0xC4, 0x0B :: byte] \<and>
   is_modbus_request 3 [0x01, 0x03, 0x00, 0x00, 0x00, 0x02, 0xC4, 0x0B] \<and>
   map_of (pending_requests (fst (process_frame (fst (process_frame (init_sniffer True)
       [0x01, 0x03, 0x00, 0x00, 0x00, 0x0A, 0xC5, 0xCD] 10))
       [0x01, 0x03, 0x00, 0x00, 0x00, 0x02, 0xC4, 0x0B] 11))) 1 =
     Some \<lparr>req_frame = [0x01, 0x03, 0x00, 0x00, 0x00, 0x02, 0xC4, 0x0B], req_time = 11,
           req_function_code = 3\<rparr> \<and>
   length (filter (\<lambda>e. fst e = 1) (pending_requests (fst (process_frame (fst (process_frame
       (init_sniffer True) [0x01, 0x03, 0x00, 0x00, 0x00, 0x0A, 0xC5, 0xCD] 10))
       [0x01, 0x03, 0x00, 0x00, 0x00, 0x02, 0xC4, 0x0B] 11)))) = 1"
proof -
  let ?R1 = "[0x01, 0x03, 0x00, 0x00, 0x00, 0x0A, 0xC5, 0xCD] :: byte list"
  let ?R2 = "[0x01, 0x03, 0x00, 0x00, 0x00, 0x02, 0xC4, 0x0B] :: byte list"
  let ?s1 = "fst (process_frame (init_sniffer True) ?R1 10)"
  have r: "reachable ?s1" by (rule reachable.step [OF reachable.start])
  have h: "MIN_FRAME_SIZE \<le> length ?R2" "is_modbus_request 3 ?R2"
    by (simp_all add: MIN_FRAME_SIZE_def is_modbus_request_def)
  have n: "?R2 ! 0 = 1" "?R2 ! 1 = 3" by simp_all
  note t = pending_requests_one_per_device [OF r, where f = ?R2 and t = 11, unfolded n]
  from t h r show ?thesis unfolding first_request_pending by simp
qed

subsection \<open>The correlator\<close>

text \<open>
  C5. Let a frame of device \<open>d\<close> be classified as a response. If a request is pending
  for \<open>d\<close>, the response is reported with the time of its arrival minus the stored time
  of the request, in milliseconds, and with the frame of that request; if none is
  pending, it is reported with the response time \<open>0\<close> the code starts from and with no
  request frame, no response time goes to the MQTT client, and the table is unchanged:
  this is how the code reports an unknown latency. In both cases \<open>d\<close> has no pending entry
  afterwards, and the entries of the other devices are as before. So a second response of
  \<open>d\<close> that follows directly is reported with response time \<open>0\<close> and no request frame.
\<close>

theorem response_correlation:
  assumes len: "MIN_FRAME_SIZE \<le> length f" and resp: "\<not> is_modbus_request (f ! 1) f"
  shows "(\<forall>req. map_of (pending_requests s) (f ! 0) = Some req \<longrightarrow>
            hd (snd (process_frame s f t)) =
              Response_logged (f ! 0) f ((t - req_time req) * 1000) (Some (req_frame req))) \<and>
         (map_of (pending_requests s) (f ! 0) = None \<longrightarrow>
            hd (snd (process_frame s f t)) = Response_logged (f ! 0) f 0 None \<and>
            (\<forall>d x. Response_time_published d x \<notin> set (snd (process_frame s f t))) \<and>
            pending_requests (fst (process_frame s f t)) = pending_requests s) \<and>
         map_of (pending_requests (fst (process_frame s f t))) (f ! 0) = None \<and>
         (\<forall>d. d \<noteq> f ! 0 \<longrightarrow>
            map_of (pending_requests (fst (process_frame s f t))) d =
            map_of (pending_requests s) d) \<and>
         (MIN_FRAME_SIZE \<le> length g \<and> \<not> is_modbus_request (g ! 1) g \<and> g ! 0 = f ! 0 \<longrightarrow>
            hd (snd (process_frame (fst (process_frame s f t)) g u)) =
              Response_logged (g ! 0) g 0 None)"
proof (intro conjI allI impI)
  note p = process_frame_response(1) [OF len resp, of s t]
  note h = process_frame_response(3) [OF len resp, of s t]
  show "hd (snd (process_frame s f t)) =
      Response_logged (f ! 0) f ((t - req_time req) * 1000) (Some (req_frame req))"
    if "map_of (pending_requests s) (f ! 0) = Some req" for req
    unfolding h using that by (simp add: match_response_def)
  show gone: "map_of (pending_requests (fst (process_frame s f t))) (f ! 0) = None"
    unfolding p match_response_table by (simp add: delete_conv')
  show "map_of (pending_requests (fst (process_frame s f t))) d = map_of (pending_requests s) d"
    if "d \<noteq> f ! 0" for d
    unfolding p match_response_table using that by (simp add: delete_conv')
  show "hd (snd (process_frame (fst (process_frame s f t)) g u)) =
              Response_logged (g ! 0) g 0 None"
    if g: "MIN_FRAME_SIZE \<le> length g \<and> \<not> is_modbus_request (g ! 1) g \<and> g ! 0 = f ! 0"
  proof -
    from g gone have none: "map_of (pending_requests (fst (process_frame s f t))) (g ! 0) = None"
      by simp
    from g have "MIN_FRAME_SIZE \<le> length g" "\<not> is_modbus_request (g ! 1) g" by simp_all
    from process_frame_response(3) [OF this, of "fst (process_frame s f t)" u] none
    show ?thesis by (simp add: match_response_def)
  qed
next
  assume none: "map_of (pending_requests s) (f ! 0) = None"
  then have mr: "match_response (pending_requests s) (f ! 0) t = (0, None, pending_requests s)"
    by (simp add: match_response_def)
  show "hd (snd (process_frame s f t)) = Response_logged (f ! 0) f 0 None"
    unfolding process_frame_response(3) [OF len resp, of s t] mr by simp
  show "pending_requests (fst (process_frame s f t)) = pending_requests s"
    unfolding process_frame_response(1) [OF len resp, of s t] mr by simp
  fix d x
  have ne: "snd (process_frame s f t) \<noteq> []"
    by (rule process_frame_response(2) [OF len resp])
  have tl: "tl (snd (process_frame s f t)) = [] \<or>
      tl (snd (process_frame s f t)) = publish_stats (fst (process_frame s f t))"
    by (rule process_frame_response(4) [OF len resp]) (simp add: mr)
  moreover have "Response_time_published d x \<notin> set (publish_stats st)" for st
    by (simp add: publish_stats_def)
  ultimately have "Response_time_published d x \<notin> set (tl (snd (process_frame s f t)))"
    by auto
  moreover have "hd (snd (process_frame s f t)) \<noteq> Response_time_published d x"
    unfolding process_frame_response(3) [OF len resp, of s t] by simp
  moreover have "snd (process_frame s f t) =
      hd (snd (process_frame s f t)) # tl (snd (process_frame s f t))"
    using ne by simp
  ultimately show "Response_time_published d x \<notin> set (snd (process_frame s f t))"
    by (metis set_ConsD)
qed

theorem response_correlation_witness:
  "MIN_FRAME_SIZE \<le> length [0x01, 0x03, 0x04, 0x00, 0x07, 0x00, 0x08, 0x4A, 0x34 :: byte] \<and>
   \<not> is_modbus_request 3 [0x01, 0x03, 0x04, 0x00, 0x07, 0x00, 0x08, 0x4A, 0x34] \<and>
   hd (snd (process_frame (fst (process_frame (init_sniffer True)
       [0x01, 0x03, 0x00, 0x00, 0x00, 0x0A, 0xC5, 0xCD] 10))
       [0x01, 0x03, 0x04, 0x00, 0x07, 0x00, 0x08, 0x4A, 0x34] (41 / 4))) =
     Response_logged 1 [0x01, 0x03, 0x04, 0x00, 0x07, 0x00, 0x08, 0x4A, 0x34] 250
       (Some [0x01, 0x03, 0x00, 0x00, 0x00, 0x0A, 0xC5, 0xCD]) \<and>
   map_of (pending_requests (fst (process_frame (fst (process_frame (init_sniffer True)
       [0x01, 0x03, 0x00, 0x00, 0x00, 0x0A, 0xC5, 0xCD] 10))
       [0x01, 0x03, 0x04, 0x00, 0x07, 0x00, 0x08, 0x4A, 0x34] (41 / 4)))) 1 = None \<and>
   hd (snd (process_frame (fst (process_frame (fst (process_frame (init_sniffer True)
       [0x01, 0x03, 0x00, 0x00, 0x00, 0x0A, 0xC5, 0xCD] 10))
       [0x01, 0x03, 0x04, 0x00, 0x07, 0x00, 0x08, 0x4A, 0x34] (41 / 4)))
       [0x01, 0x03, 0x04, 0x00, 0x07, 0x00, 0x08, 0x4A, 0x34] 11)) =
     Response_logged 1 [0x01, 0x03, 0x04, 0x00, 0x07, 0x00, 0x08, 0x4A, 0x34] 0 None \<and>
   hd (snd (process_frame (init_sniffer True)
       [0x01, 0x03, 0x04, 0x00, 0x07, 0x00, 0x08, 0x4A, 0x34] 5)) =
     Response_logged 1 [0x01, 0x03, 0x04, 0x00, 0x07, 0x00, 0x08, 0x4A, 0x34] 0 None"
proof -
  let ?R1 = "[0x01, 0x03, 0x00, 0x00, 0x00, 0x0A, 0xC5, 0xCD] :: byte list"
  let ?P = "[0x01, 0x03, 0x04, 0x00, 0x07, 0x00, 0x08, 0x4A, 0x34] :: byte list"
  let ?s1 = "fst (process_frame (init_sniffer True) ?R1 10)"
  have n: "?P ! 0 = 1" "?P ! 1 = 3" by simp_all
  have h: "MIN_FRAME_SIZE \<le> length ?P" "\<not> is_modbus_request 3 ?P"
    by (simp_all add: MIN_FRAME_SIZE_def is_modbus_request_def)
  have h': "MIN_FRAME_SIZE \<le> length ?P" "\<not> is_modbus_request (?P ! 1) ?P"
    unfolding n by (rule h)+
  note t1 = response_correlation [OF h', where s = ?s1 and t = "41 / 4" and g = ?P and u = 11,
      unfolded n first_request_pending]
  note t2 = response_correlation [OF h', where s = "init_sniffer True" and t = 5, unfolded n]
  have "map_of (pending_requests (init_sniffer True)) (1 :: byte) = None"
    by (simp add: init_sniffer_def)
  with t2 have c2: "hd (snd (process_frame (init_sniffer True) ?P 5)) = Response_logged 1 ?P 0 None"
    by blast
  from t1 h have c1: "hd (snd (process_frame ?s1 ?P (41 / 4))) = Response_logged 1 ?P 250 (Some ?R1)"
    "map_of (pending_requests (fst (process_frame ?s1 ?P (41 / 4)))) 1 = None"
    "hd (snd (process_frame (fst (process_frame ?s1 ?P (41 / 4))) ?P 11)) = Response_logged 1 ?P 0 None"
    by simp_all
  from c1 c2 h show ?thesis by blast
qed

subsection \<open>The statistics snapshot\<close>

text \<open>
  C7, as amended. Along every trace of frames handed to \<open>process_frame\<close> by a fresh
  sniffer, a statistics snapshot is emitted at a frame exactly when the sniffer has an
  MQTT client, the frame has at least \<open>MIN_FRAME_SIZE\<close> bytes and the number of frames
  handed over so far, this one included, is a multiple of \<open>STATS_PUBLISH_INTERVAL = 50\<close>.
  When every frame of the trace has at least \<open>MIN_FRAME_SIZE\<close> bytes, as the frames of the
  extractor have, that number is the count of valid frames: a snapshot is emitted exactly
  when there is an MQTT client and the count of valid frames is a positive multiple of 50.
\<close>

theorem stats_snapshot_schedule:
  "(emits_stats (snd (process_frame (process_all (init_sniffer m) trace) f t)) \<longleftrightarrow>
      m \<and> MIN_FRAME_SIZE \<le> length f \<and> (length trace + 1) mod STATS_PUBLISH_INTERVAL = 0) \<and>
   total_frames (stats (fst (process_frame (process_all (init_sniffer m) trace) f t))) =
      length trace + 1 \<and>
   ((\<forall>(g, u) \<in> set (trace @ [(f, t)]). MIN_FRAME_SIZE \<le> length g) \<longrightarrow>
      valid_frames (stats (fst (process_frame (process_all (init_sniffer m) trace) f t))) =
        length trace + 1 \<and>
      (emits_stats (snd (process_frame (process_all (init_sniffer m) trace) f t)) \<longleftrightarrow>
         m \<and>
         0 < valid_frames (stats (fst (process_frame (process_all (init_sniffer m) trace) f t))) \<and>
         valid_frames (stats (fst (process_frame (process_all (init_sniffer m) trace) f t)))
           mod STATS_PUBLISH_INTERVAL = 0))"
proof -
  define s where "s = process_all (init_sniffer m) trace"
  have m: "mqtt s = m" by (simp add: s_def process_all_mqtt init_sniffer_def)
  have tot: "total_frames (stats s) = length trace"
    by (simp add: s_def process_all_total init_sniffer_def zero_counters_def)
  have e: "emits_stats (snd (process_frame s f t)) \<longleftrightarrow>
      m \<and> MIN_FRAME_SIZE \<le> length f \<and> (length trace + 1) mod STATS_PUBLISH_INTERVAL = 0"
    unfolding process_frame_emits m tot ..
  have t: "total_frames (stats (fst (process_frame s f t))) = length trace + 1"
    unfolding process_frame_total tot ..
  have v: "valid_frames (stats (fst (process_frame s f t))) = length trace + 1"
    if all: "\<forall>(g, u) \<in> set (trace @ [(f, t)]). MIN_FRAME_SIZE \<le> length g"
  proof -
    from all have "\<forall>x \<in> set trace. case x of (g, u) \<Rightarrow> MIN_FRAME_SIZE \<le> length g" by simp
    then have "filter (\<lambda>(g, u). MIN_FRAME_SIZE \<le> length g) trace = trace"
      unfolding filter_id_conv .
    then have "valid_frames (stats s) = length trace"
      by (simp add: s_def process_all_valid init_sniffer_def zero_counters_def)
    moreover from all have "\<not> length f < MIN_FRAME_SIZE" by simp
    ultimately show ?thesis unfolding process_frame_valid by simp
  qed
  have ev: "emits_stats (snd (process_frame s f t)) \<longleftrightarrow>
         m \<and> 0 < valid_frames (stats (fst (process_frame s f t))) \<and>
         valid_frames (stats (fst (process_frame s f t))) mod STATS_PUBLISH_INTERVAL = 0"
    if all: "\<forall>(g, u) \<in> set (trace @ [(f, t)]). MIN_FRAME_SIZE \<le> length g"
  proof -
    from all have "MIN_FRAME_SIZE \<le> length f" by simp
    then show ?thesis unfolding v [OF all] e by simp
  qed
  show ?thesis unfolding s_def [symmetric]
  proof (intro conjI impI)
    show "emits_stats (snd (process_frame s f t)) \<longleftrightarrow>
      m \<and> MIN_FRAME_SIZE \<le> length f \<and> (length trace + 1) mod STATS_PUBLISH_INTERVAL = 0"
      by (rule e)
    show "total_frames (stats (fst (process_frame s f t))) = length trace + 1" by (rule t)
    show "valid_frames (stats (fst (process_frame s f t))) = length trace + 1"
      if "\<forall>(g, u) \<in> set (trace @ [(f, t)]). MIN_FRAME_SIZE \<le> length g"
      by (rule v [OF that])
    show "emits_stats (snd (process_frame s f t)) \<longleftrightarrow>
         m \<and> 0 < valid_frames (stats (fst (process_frame s f t))) \<and>
         valid_frames (stats (fst (process_frame s f t))) mod STATS_PUBLISH_INTERVAL = 0"
      if "\<forall>(g, u) \<in> set (trace @ [(f, t)]). MIN_FRAME_SIZE \<le> length g"
      by (rule ev [OF that])
  qed
qed

theorem stats_snapshot_schedule_witness:
  "MIN_FRAME_SIZE \<le> length [0x01, 0x03, 0x00, 0x00, 0x00, 0x0A, 0xC5, 0xCD :: byte] \<and>
   emits_stats (snd (process_frame (process_all (init_sniffer True)
       (replicate 49 ([0x01, 0x03, 0x00, 0x00, 0x00, 0x0A, 0xC5, 0xCD], 0)))
       [0x01, 0x03, 0x00, 0x00, 0x00, 0x0A, 0xC5, 0xCD] 0)) \<and>
   valid_frames (stats (fst (process_frame (process_all (init_sniffer True)
       (replicate 49 ([0x01, 0x03, 0x00, 0x00, 0x00, 0x0A, 0xC5, 0xCD], 0)))
       [0x01, 0x03, 0x00, 0x00, 0x00, 0x0A, 0xC5, 0xCD] 0))) = 50 \<and>
   \<not> emits_stats (snd (process_frame (process_all (init_sniffer True)
       (replicate 48 ([0x01, 0x03, 0x00, 0x00, 0x00, 0x0A, 0xC5, 0xCD], 0)))
       [0x01, 0x03, 0x00, 0x00, 0x00, 0x0A, 0xC5, 0xCD] 0))"
proof -
  let ?F = "[0x01, 0x03, 0x00, 0x00, 0x00, 0x0A, 0xC5, 0xCD] :: byte list"
  have all: "\<forall>(g, u) \<in> set (replicate 49 (?F, 0 :: real) @ [(?F, 0)]). MIN_FRAME_SIZE \<le> length g"
    by (simp add: MIN_FRAME_SIZE_def)
  note t49 = stats_snapshot_schedule [where m = True and trace = "replicate 49 (?F, 0)"
      and f = ?F and t = 0]
  note t48 = stats_snapshot_schedule [where m = True and trace = "replicate 48 (?F, 0)"
      and f = ?F and t = 0]
  from t49 all have "emits_stats (snd (process_frame (process_all (init_sniffer True)
       (replicate 49 (?F, 0))) ?F 0))"
    "valid_frames (stats (fst (process_frame (process_all (init_sniffer True)
       (replicate 49 (?F, 0))) ?F 0))) = 50"
    by (simp_all add: MIN_FRAME_SIZE_def STATS_PUBLISH_INTERVAL_def)
  moreover from t48 have "\<not> emits_stats (snd (process_frame (process_all (init_sniffer True)
       (replicate 48 (?F, 0))) ?F 0))"
    by (simp add: MIN_FRAME_SIZE_def STATS_PUBLISH_INTERVAL_def)
  moreover have "MIN_FRAME_SIZE \<le> length ?F" by (simp add: MIN_FRAME_SIZE_def)
  ultimately show ?thesis by blast
qed

text \<open>
  The claim as stated fails for a sniffer without MQTT client (\<open>paho-mqtt\<close> not
  installed): \<open>publish_stats\<close> returns at once, and the fiftieth valid frame emits nothing.
\<close>

theorem stats_snapshot_schedule_counterexample:
  "valid_frames (stats (fst (process_frame (process_all (init_sniffer False)
       (replicate 49 ([0x01, 0x03, 0x00, 0x00, 0x00, 0x0A, 0xC5, 0xCD], 0)))
       [0x01, 0x03, 0x00, 0x00, 0x00, 0x0A, 0xC5, 0xCD] 0))) = 50 \<and>
   \<not> emits_stats (snd (process_frame (process_all (init_sniffer False)
       (replicate 49 ([0x01, 0x03, 0x00, 0x00, 0x00, 0x0A, 0xC5, 0xCD], 0)))
       [0x01, 0x03, 0x00, 0x00, 0x00, 0x0A, 0xC5, 0xCD] 0))"
proof
  let ?F = "[0x01, 0x03, 0x00, 0x00, 0x00, 0x0A, 0xC5, 0xCD] :: byte list"
  show "valid_frames (stats (fst (process_frame (process_all (init_sniffer False)
       (replicate 49 (?F, 0))) ?F 0))) = 50"
    by (simp add: process_frame_valid process_all_valid init_sniffer_def zero_counters_def
          MIN_FRAME_SIZE_def)
  show "\<not> emits_stats (snd (process_frame (process_all (init_sniffer False)
       (replicate 49 (?F, 0))) ?F 0))"
    by (simp add: process_frame_emits process_all_mqtt init_sniffer_def)
qed

end
